theory Spec2Isabelle
  imports Main "HOL-Library.Word"
begin

section \<open>The host program of the L2 reflector (src/host/l2\_reflector.c)\<close>

text \<open>
  The file holds two functions: \<^verbatim>\<open>signal_handler\<close> and \<^verbatim>\<open>main\<close>.  Everything else
  that \<^verbatim>\<open>main\<close> touches is an external call (DOCA, FlexIO, libc).  The embedding
  therefore runs \<^verbatim>\<open>main\<close> against a script of the outside world: one \<open>world\<close>
  snapshot for every external call whose result the program reads, and for every
  \<^verbatim>\<open>sleep\<close>.  A script that ends while the program is still running gives \<open>None\<close>.
  Signals reach the process between the calls; the model delivers them when the next
  snapshot is taken, before the call of that snapshot returns.  The log lines are left
  out, the final report apart.  Line numbers are those of \<^verbatim>\<open>l2_reflector.c\<close>.
\<close>

subsection \<open>Constants of the headers\<close>

definition SIMULATION_TIME :: int where
  "SIMULATION_TIME = 60"

text \<open>\<^verbatim>\<open>stdlib.h\<close> and \<^verbatim>\<open>signal.h\<close>, with their Linux values.\<close>

definition EXIT_SUCCESS :: int where
  "EXIT_SUCCESS = 0"

definition EXIT_FAILURE :: int where
  "EXIT_FAILURE = 1"

definition SIGINT :: int where
  "SIGINT = 2"

definition SIGTERM :: int where
  "SIGTERM = 15"

subsection \<open>External calls and the trace of a run\<close>

datatype rpc = l2_reflector_device_init | get_processed_packets_num

datatype call =
    doca_log_backend_create_standard
  | doca_log_backend_create_with_file_sdk
  | doca_log_backend_set_sdk_level
  | doca_argp_init
  | register_l2_reflector_params
  | doca_argp_start
  | doca_argp_destroy
  | l2_reflector_setup_ibv_device
  | l2_reflector_setup_device
  | l2_reflector_allocate_device_resources
  | flexio_process_call rpc
  | l2_reflector_create_steering_rule_rx
  | l2_reflector_create_steering_rule_tx
  | flexio_event_handler_run
  | signal int
  | time
  | localtime
  | sleep
  | l2_reflector_destroy
  | l2_reflector_steering_rules_destroy
  | l2_reflector_device_resources_destroy
  | l2_reflector_device_destroy
  | l2_reflector_ibv_device_destroy

text \<open>
  \<open>Call c ok\<close>: the program called \<open>c\<close>, and \<open>ok\<close> tells whether it reported success
  (\<^verbatim>\<open>DOCA_SUCCESS\<close>, \<^verbatim>\<open>FLEXIO_STATUS_SUCCESS\<close>; \<open>True\<close> for a call without a status).
  \<open>Handler n\<close>: \<^verbatim>\<open>signal_handler\<close> ran with signal number \<open>n\<close>.
\<close>

datatype event = Call call bool | Handler int

text \<open>What the final \<^verbatim>\<open>DOCA_LOG_INFO\<close> lines print: the total, and one row per
  \<^verbatim>\<open>"Second %d: %d"\<close>.  The average is computed in \<^verbatim>\<open>float\<close> and is left out.\<close>

record report =
  total :: "64 word"
  seconds :: "(nat \<times> int) list"

text \<open>
  The variables of \<^verbatim>\<open>main\<close> and the file-level \<^verbatim>\<open>force_quit\<close>.  A bucket of
  \<^verbatim>\<open>packets_per_second\<close> is a C \<^verbatim>\<open>int\<close>, kept as its 32 bits and read with \<open>sint\<close>;
  \<^verbatim>\<open>current_second\<close> and the \<^verbatim>\<open>time_t\<close> values are only copied and compared, so they
  are \<open>int\<close>.  Three fields are not variables of the source: \<open>handlers\<close> lists the signal
  numbers \<^verbatim>\<open>signal_handler\<close> is installed for, \<open>head_time\<close> is the value of
  \<^verbatim>\<open>time(NULL)\<close> in the latest evaluation of the condition of line 177, and
  \<open>printed\<close> is the final report once it has been logged.
\<close>

record proc =
  force_quit :: bool
  handlers :: "int list"
  trace :: "event list"
  ret_rpc_val :: "64 word"
  last_rpc_val :: "64 word"
  packets_per_second :: "32 word list"
  current_second :: int
  start_time :: int
  head_time :: int
  printed :: "report option"

text \<open>
  The outside world at the moment of one external call: the signals delivered to the
  process since the previous call, the status the call reports, the device's
  packet counter, \<^verbatim>\<open>time(NULL)\<close> and the \<^verbatim>\<open>tm_sec\<close> field of \<^verbatim>\<open>localtime\<close>.
  Each call reads the fields it needs.
\<close>

record world =
  sigs :: "int list"
  ok :: bool
  counter :: "64 word"
  clock :: int
  tm_sec :: int

text \<open>
  How a run ends: \<^verbatim>\<open>return\<close> from \<^verbatim>\<open>main\<close> with an exit code; termination by a
  signal that has no handler; or a write outside \<^verbatim>\<open>packets_per_second\<close>, which
  is undefined behaviour in C.
\<close>

datatype outcome = Exit int proc | Killed int proc | Fault proc

subsection \<open>signal\_handler\<close>

definition signal_handler :: "int \<Rightarrow> proc \<Rightarrow> proc" where
  "signal_handler signum p =
     (if signum = SIGINT \<or> signum = SIGTERM then p\<lparr>force_quit := True\<rparr> else p)"

text \<open>
  Delivery of a signal: the installed handler runs, and stays installed (the semantics of
  \<^verbatim>\<open>signal\<close> in glibc); a signal without a handler takes its default disposition, which
  for \<^verbatim>\<open>SIGINT\<close> and \<^verbatim>\<open>SIGTERM\<close> terminates the process.  The model lets every signal
  without a handler terminate the process: the signals that are ignored by default
  (\<^verbatim>\<open>SIGCHLD\<close>, \<^verbatim>\<open>SIGURG\<close>, \<^verbatim>\<open>SIGWINCH\<close>) and \<^verbatim>\<open>SIGCONT\<close> are not told apart, and
  the properties below are about \<^verbatim>\<open>SIGINT\<close> and \<^verbatim>\<open>SIGTERM\<close>.  The three log lines of the
  handler are not part of the model.
\<close>

definition deliver :: "int \<Rightarrow> proc \<Rightarrow> outcome + proc" where
  "deliver signum p =
     (if signum \<in> set (handlers p)
      then Inr (signal_handler signum (p\<lparr>trace := trace p @ [Handler signum]\<rparr>))
      else Inl (Killed signum p))"

fun deliver_all :: "int list \<Rightarrow> proc \<Rightarrow> outcome + proc" where
  "deliver_all [] p = Inr p"
| "deliver_all (s # ss) p =
     (case deliver s p of Inl k \<Rightarrow> Inl k | Inr p' \<Rightarrow> deliver_all ss p')"

subsection \<open>Calling out of main\<close>

definition logged :: "call \<Rightarrow> bool \<Rightarrow> proc \<Rightarrow> proc" where
  "logged c b p = p\<lparr>trace := trace p @ [Call c b]\<rparr>"

text \<open>A call whose result \<^verbatim>\<open>main\<close> does not read (the destroy functions, \<^verbatim>\<open>signal\<close>).\<close>

definition void :: "call \<Rightarrow> proc \<Rightarrow> proc" where
  "void c p = logged c True p"

text \<open>
  A call whose result is read takes the next snapshot.  \<open>Inl r\<close>: the run stops here
  (\<open>None\<close>: the script is used up; \<open>Some (Killed \<dots>)\<close>: an unhandled signal arrived).
  \<open>status\<close> says whether the call returns a status.
\<close>

definition ext :: "call \<Rightarrow> bool \<Rightarrow> proc \<Rightarrow> world list
    \<Rightarrow> outcome option + (world \<times> proc \<times> world list)" where
  "ext c status p ws =
     (case ws of
        [] \<Rightarrow> Inl None
      | w # ws' \<Rightarrow>
          (case deliver_all (sigs w) p of
             Inl k \<Rightarrow> Inl (Some k)
           | Inr p' \<Rightarrow> Inr (w, logged c (if status then ok w else True) p', ws')))"

subsection \<open>The cleanup labels of main\<close>

definition ibv_device_cleanup :: "proc \<Rightarrow> outcome" where
  "ibv_device_cleanup p =
     Exit EXIT_FAILURE (void doca_argp_destroy (void l2_reflector_ibv_device_destroy p))"

definition device_cleanup :: "proc \<Rightarrow> outcome" where
  "device_cleanup p = ibv_device_cleanup (void l2_reflector_device_destroy p)"

definition device_resources_cleanup :: "proc \<Rightarrow> outcome" where
  "device_resources_cleanup p =
     device_cleanup (void l2_reflector_device_resources_destroy p)"

definition rule_cleanup :: "proc \<Rightarrow> outcome" where
  "rule_cleanup p =
     device_resources_cleanup (void l2_reflector_steering_rules_destroy p)"

subsection \<open>The telemetry loop\<close>

text \<open>Lines 186--190: the wait while the counter read equals the last one.\<close>

fun wait_unchanged :: "proc \<Rightarrow> world list \<Rightarrow> (outcome + proc \<times> world list) option" where
  "wait_unchanged p [] =
     (if \<not> force_quit p \<and> last_rpc_val p = ret_rpc_val p then None
      else Some (Inr (p, [])))"
| "wait_unchanged p (w # ws) =
     (if \<not> force_quit p \<and> last_rpc_val p = ret_rpc_val p
      then (case deliver_all (sigs w) p of
              Inl k \<Rightarrow> Some (Inl k)
            | Inr p' \<Rightarrow> wait_unchanged (logged sleep True p') ws)
      else Some (Inr (p, w # ws)))"

text \<open>
  A write \<^verbatim>\<open>packets_per_second[i] = v\<close>; \<open>None\<close> when \<open>i\<close> is outside the 60 slots.
  Then lines 194--201, given \<^verbatim>\<open>tm_sec\<close>.  The assignment of line 200 converts the
  \<^verbatim>\<open>uint64_t\<close> difference to \<^verbatim>\<open>int\<close>, which keeps its low 32 bits.
\<close>

definition store :: "int \<Rightarrow> 32 word \<Rightarrow> proc \<Rightarrow> proc option" where
  "store i v p =
     (if 0 \<le> i \<and> i < SIMULATION_TIME
      then Some (p\<lparr>packets_per_second := (packets_per_second p)[nat i := v]\<rparr>)
      else None)"

definition record_progress :: "int \<Rightarrow> proc \<Rightarrow> proc option" where
  "record_progress new_second p =
     (case (if new_second \<noteq> current_second p
            then store new_second 0 (p\<lparr>current_second := new_second\<rparr>)
            else Some p) of
        None \<Rightarrow> None
      | Some p1 \<Rightarrow>
          (case store (current_second p1) (ucast (ret_rpc_val p1 - last_rpc_val p1)) p1 of
             None \<Rightarrow> None
           | Some p2 \<Rightarrow> Some (p2\<lparr>last_rpc_val := ret_rpc_val p2\<rparr>)))"

text \<open>Lines 204--216: the report, \<^verbatim>\<open>l2_reflector_destroy\<close>, \<^verbatim>\<open>EXIT_SUCCESS\<close>.\<close>

definition final_report :: "proc \<Rightarrow> report" where
  "final_report p =
     \<lparr>total = ret_rpc_val p,
      seconds = map (\<lambda>i. (i, sint (packets_per_second p ! i)))
                    [0 ..< nat (current_second p)]\<rparr>"

definition finish :: "proc \<Rightarrow> outcome" where
  "finish p =
     Exit EXIT_SUCCESS (void l2_reflector_destroy (p\<lparr>printed := Some (final_report p)\<rparr>))"

text \<open>
  Lines 177--202.  The condition of line 177 reads \<^verbatim>\<open>force_quit\<close> first and calls
  \<^verbatim>\<open>time\<close> only if it is false; \<^verbatim>\<open>difftime\<close> of two \<^verbatim>\<open>time_t\<close> is their difference.
\<close>

function telemetry_loop :: "proc \<Rightarrow> world list \<Rightarrow> outcome option" where
  "telemetry_loop p ws =
     (if force_quit p then Some (finish p)
      else (case ext time False p ws of
        Inl r \<Rightarrow> r
      | Inr (w1, p0, ws1) \<Rightarrow>
          let p1 = p0\<lparr>head_time := clock w1\<rparr> in
          (if \<not> clock w1 - start_time p1 < SIMULATION_TIME then Some (finish p1)
           else (case ext (flexio_process_call get_processed_packets_num) True p1 ws1 of
             Inl r \<Rightarrow> r
           | Inr (w2, p2, ws2) \<Rightarrow>
               (if \<not> ok w2 then Some (rule_cleanup p2)
                else (case wait_unchanged (p2\<lparr>ret_rpc_val := counter w2\<rparr>) ws2 of
                  None \<Rightarrow> None
                | Some (Inl k) \<Rightarrow> Some k
                | Some (Inr (p3, ws3)) \<Rightarrow>
                    (case ext time False p3 ws3 of
                       Inl r \<Rightarrow> r
                     | Inr (w4, p4, ws4) \<Rightarrow>
                         (case record_progress (tm_sec w4) (void localtime p4) of
                            None \<Rightarrow> Some (Fault (void localtime p4))
                          | Some p5 \<Rightarrow> telemetry_loop p5 ws4))))))))"
  by pat_completeness auto

subsection \<open>main\<close>

definition initial :: proc where
  "initial =
     \<lparr>force_quit = False, handlers = [], trace = [], ret_rpc_val = 0, last_rpc_val = 0,
      packets_per_second = replicate 60 0, current_second = 0, start_time = 0,
      head_time = 0, printed = None\<rparr>"

text \<open>Lines 166--216: the handlers are installed, then the loop runs.\<close>

definition observe :: "proc \<Rightarrow> world list \<Rightarrow> outcome option" where
  "observe p ws =
     (let p1 = void (signal SIGINT) (p\<lparr>handlers := SIGINT # handlers p\<rparr>);
          p2 = void (signal SIGTERM) (p1\<lparr>handlers := SIGTERM # handlers p1\<rparr>)
      in case ext time False p2 ws of
           Inl r \<Rightarrow> r
         | Inr (w, p3, ws') \<Rightarrow>
             telemetry_loop (void localtime (p3\<lparr>start_time := clock w\<rparr>)) ws')"

text \<open>Lines 117--164: the four stages, the init call on the device, the launch.\<close>

definition acquire :: "proc \<Rightarrow> world list \<Rightarrow> outcome option" where
  "acquire p ws =
     (case ext l2_reflector_setup_ibv_device True p ws of
        Inl r \<Rightarrow> r
      | Inr (w1, p1, ws1) \<Rightarrow>
     if \<not> ok w1 then Some (Exit EXIT_FAILURE (void doca_argp_destroy p1)) else
     (case ext l2_reflector_setup_device True p1 ws1 of
        Inl r \<Rightarrow> r
      | Inr (w2, p2, ws2) \<Rightarrow>
     if \<not> ok w2 then Some (ibv_device_cleanup p2) else
     (case ext l2_reflector_allocate_device_resources True p2 ws2 of
        Inl r \<Rightarrow> r
      | Inr (w3, p3, ws3) \<Rightarrow>
     if \<not> ok w3 then Some (device_cleanup p3) else
     (case ext (flexio_process_call l2_reflector_device_init) True p3 ws3 of
        Inl r \<Rightarrow> r
      | Inr (w4, p4, ws4) \<Rightarrow>
     if \<not> ok w4 then Some (device_resources_cleanup p4) else
     (case ext l2_reflector_create_steering_rule_rx True p4 ws4 of
        Inl r \<Rightarrow> r
      | Inr (w5, p5, ws5) \<Rightarrow>
     if \<not> ok w5 then Some (device_resources_cleanup p5) else
     (case ext l2_reflector_create_steering_rule_tx True p5 ws5 of
        Inl r \<Rightarrow> r
      | Inr (w6, p6, ws6) \<Rightarrow>
     if \<not> ok w6 then Some (rule_cleanup p6) else
     (case ext flexio_event_handler_run True p6 ws6 of
        Inl r \<Rightarrow> r
      | Inr (w7, p7, ws7) \<Rightarrow>
     if \<not> ok w7 then Some (rule_cleanup p7) else
     observe p7 ws7)))))))"

text \<open>Lines 79--115: the loggers and the argument parser, then the rest.\<close>

definition main :: "world list \<Rightarrow> outcome option" where
  "main ws =
     (case ext doca_log_backend_create_standard True initial ws of
        Inl r \<Rightarrow> r
      | Inr (w1, p1, ws1) \<Rightarrow>
     if \<not> ok w1 then Some (Exit EXIT_FAILURE p1) else
     (case ext doca_log_backend_create_with_file_sdk True p1 ws1 of
        Inl r \<Rightarrow> r
      | Inr (w2, p2, ws2) \<Rightarrow>
     if \<not> ok w2 then Some (Exit EXIT_FAILURE p2) else
     (case ext doca_log_backend_set_sdk_level True p2 ws2 of
        Inl r \<Rightarrow> r
      | Inr (w3, p3, ws3) \<Rightarrow>
     if \<not> ok w3 then Some (Exit EXIT_FAILURE p3) else
     (case ext doca_argp_init True p3 ws3 of
        Inl r \<Rightarrow> r
      | Inr (w4, p4, ws4) \<Rightarrow>
     if \<not> ok w4 then Some (Exit EXIT_FAILURE p4) else
     (case ext register_l2_reflector_params True p4 ws4 of
        Inl r \<Rightarrow> r
      | Inr (w5, p5, ws5) \<Rightarrow>
     if \<not> ok w5 then Some (Exit EXIT_FAILURE (void doca_argp_destroy p5)) else
     (case ext doca_argp_start True p5 ws5 of
        Inl r \<Rightarrow> r
      | Inr (w6, p6, ws6) \<Rightarrow>
     if \<not> ok w6 then Some (Exit EXIT_FAILURE (void doca_argp_destroy p6)) else
     acquire p6 ws6))))))"

section \<open>Vocabulary of the properties\<close>

subsection \<open>Resource domains\<close>

text \<open>The four domains of the specification, in acquisition order.\<close>

datatype domain = NetworkBinding | DeviceRuntime | DeviceResources | SteeringRules

definition domains :: "domain list" where
  "domains = [NetworkBinding, DeviceRuntime, DeviceResources, SteeringRules]"

text \<open>
  What a call releases.  The body of \<^verbatim>\<open>l2_reflector_destroy\<close>, which \<^verbatim>\<open>main\<close> calls on
  the successful path, is in \<^verbatim>\<open>l2_reflector_core.c\<close> and not among the sources: what it
  releases is the parameter \<open>d\<close>.  The specification (4.5) has the teardown release the
  domains in strict reverse acquisition order, which is \<open>d = rev domains\<close>.
\<close>

fun releases :: "domain list \<Rightarrow> call \<Rightarrow> domain list" where
  "releases d l2_reflector_steering_rules_destroy = [SteeringRules]"
| "releases d l2_reflector_device_resources_destroy = [DeviceResources]"
| "releases d l2_reflector_device_destroy = [DeviceRuntime]"
| "releases d l2_reflector_ibv_device_destroy = [NetworkBinding]"
| "releases d l2_reflector_destroy = d"
| "releases d _ = []"

text \<open>The domains released along a trace, in the order of their release.\<close>

fun released :: "domain list \<Rightarrow> event list \<Rightarrow> domain list" where
  "released d [] = []"
| "released d (Call c b # es) = releases d c @ released d es"
| "released d (Handler s # es) = released d es"

text \<open>
  \<open>acquired\<close>: the stage of the domain reported success (for the steering rules: the RX
  rule and the TX rule).  \<open>held\<close>: something of the domain exists (for the steering
  rules: the RX rule).
\<close>

fun acquired :: "event list \<Rightarrow> domain \<Rightarrow> bool" where
  "acquired tr NetworkBinding = (Call l2_reflector_setup_ibv_device True \<in> set tr)"
| "acquired tr DeviceRuntime = (Call l2_reflector_setup_device True \<in> set tr)"
| "acquired tr DeviceResources =
     (Call l2_reflector_allocate_device_resources True \<in> set tr)"
| "acquired tr SteeringRules =
     (Call l2_reflector_create_steering_rule_rx True \<in> set tr \<and>
      Call l2_reflector_create_steering_rule_tx True \<in> set tr)"

fun held :: "event list \<Rightarrow> domain \<Rightarrow> bool" where
  "held tr SteeringRules = (Call l2_reflector_create_steering_rule_rx True \<in> set tr)"
| "held tr d = acquired tr d"

definition acquired_domains :: "event list \<Rightarrow> domain list" where
  "acquired_domains tr = filter (acquired tr) domains"

definition held_domains :: "event list \<Rightarrow> domain list" where
  "held_domains tr = filter (held tr) domains"

subsection \<open>Outcomes and traces\<close>

fun proc_of :: "outcome \<Rightarrow> proc" where
  "proc_of (Exit c p) = p"
| "proc_of (Killed s p) = p"
| "proc_of (Fault p) = p"

text \<open>The trace and the exit code of a run that has ended.\<close>

definition final_trace :: "world list \<Rightarrow> event list option" where
  "final_trace ws = map_option (trace \<circ> proc_of) (main ws)"

definition exit_status :: "world list \<Rightarrow> int option" where
  "exit_status ws = (case main ws of Some (Exit c p) \<Rightarrow> Some c | _ \<Rightarrow> None)"

text \<open>The events the telemetry loop adds to the trace while it polls.\<close>

fun polling :: "event \<Rightarrow> bool" where
  "polling (Handler s) = True"
| "polling (Call c b) =
     (b \<and> (c = time \<or> c = localtime \<or> c = sleep
           \<or> c = flexio_process_call get_processed_packets_num))"

definition cancelling :: "event list \<Rightarrow> bool" where
  "cancelling es = (Handler SIGINT \<in> set es \<or> Handler SIGTERM \<in> set es)"

text \<open>
  The number of sleeps in a trace; and \<open>prompt\<close>: after every run of the handler for
  SIGINT or SIGTERM the trace has at most one more sleep.
\<close>

definition sleeps :: "event list \<Rightarrow> nat" where
  "sleeps es = length (filter (\<lambda>e. e = Call sleep True) es)"

fun prompt :: "event list \<Rightarrow> bool" where
  "prompt [] = True"
| "prompt (e # es) =
     (if e = Handler SIGINT \<or> e = Handler SIGTERM then sleeps es \<le> 1 \<and> prompt es
      else prompt es)"

text \<open>
  \<open>extends p mid q\<close>: polling has led from \<open>p\<close> to \<open>q\<close>, adding \<open>mid\<close> to the trace;
  there was no sleep if \<^verbatim>\<open>force_quit\<close> was set at \<open>p\<close>.
\<close>

definition extends :: "proc \<Rightarrow> event list \<Rightarrow> proc \<Rightarrow> bool" where
  "extends p mid q \<longleftrightarrow>
     trace q = trace p @ mid \<and> list_all polling mid \<and> handlers q = handlers p \<and>
     (force_quit q \<longleftrightarrow> force_quit p \<or> cancelling mid) \<and> printed q = printed p \<and>
     prompt mid \<and> (force_quit p \<longrightarrow> sleeps mid = 0)"

text \<open>\<open>ends p out\<close>: the four ways in which the telemetry phase, entered at \<open>p\<close>, ends.\<close>

definition ends :: "proc \<Rightarrow> outcome \<Rightarrow> bool" where
  "ends p out \<longleftrightarrow>
     (\<exists>mid q. extends p mid q \<and>
        (out = finish q \<and> (force_quit q \<or> SIMULATION_TIME \<le> head_time q - start_time q)
         \<or> out = rule_cleanup (logged (flexio_process_call get_processed_packets_num) False q)
         \<or> (\<exists>s. out = Killed s q \<and> s \<notin> set (handlers q))
         \<or> out = Fault q))"

subsection \<open>Scripts\<close>

text \<open>A snapshot without a signal in which the call succeeds, and one in which it fails.\<close>

definition quiet :: world where
  "quiet = \<lparr>sigs = [], ok = True, counter = 0, clock = 0, tm_sec = 0\<rparr>"

definition failing :: world where
  "failing = quiet\<lparr>ok := False\<rparr>"

text \<open>The world at second \<open>t\<close> with the device counter at \<open>c\<close>, no signal.\<close>

definition tick :: "int \<Rightarrow> 64 word \<Rightarrow> world" where
  "tick t c = \<lparr>sigs = [], ok = True, counter = c, clock = t, tm_sec = t mod 60\<rparr>"

text \<open>The thirteen calls of lines 83--159 succeed; the state at line 166.\<close>

definition startup :: "world list" where
  "startup = replicate 13 quiet"

definition launched :: proc where
  "launched = initial\<lparr>trace := map (\<lambda>c. Call c True)
     [doca_log_backend_create_standard, doca_log_backend_create_with_file_sdk,
      doca_log_backend_set_sdk_level, doca_argp_init, register_l2_reflector_params,
      doca_argp_start, l2_reflector_setup_ibv_device, l2_reflector_setup_device,
      l2_reflector_allocate_device_resources, flexio_process_call l2_reflector_device_init,
      l2_reflector_create_steering_rule_rx, l2_reflector_create_steering_rule_tx,
      flexio_event_handler_run]\<rparr>"

text \<open>The state after lines 166--167.\<close>

definition install :: "proc \<Rightarrow> proc" where
  "install p =
     p\<lparr>handlers := SIGTERM # SIGINT # handlers p,
       trace := trace p @ [Call (signal SIGINT) True, Call (signal SIGTERM) True]\<rparr>"

subsection \<open>The early exits of main, as a table\<close>

text \<open>
  The thirteen calls of lines 83--159 in order, each with the calls \<^verbatim>\<open>main\<close> makes before
  it returns \<^verbatim>\<open>EXIT_FAILURE\<close> when that call fails.  \<open>failures\<close> lists the traces of the
  runs that end so, \<open>kills\<close> the traces at which a signal can arrive before line 166.
  The table is checked against \<open>main\<close> in lemma \<open>main_cases\<close>.
\<close>

definition setup_steps :: "(call \<times> call list) list" where
  "setup_steps =
     [(doca_log_backend_create_standard, []),
      (doca_log_backend_create_with_file_sdk, []),
      (doca_log_backend_set_sdk_level, []),
      (doca_argp_init, []),
      (register_l2_reflector_params, [doca_argp_destroy]),
      (doca_argp_start, [doca_argp_destroy]),
      (l2_reflector_setup_ibv_device, [doca_argp_destroy]),
      (l2_reflector_setup_device,
         [l2_reflector_ibv_device_destroy, doca_argp_destroy]),
      (l2_reflector_allocate_device_resources,
         [l2_reflector_device_destroy, l2_reflector_ibv_device_destroy, doca_argp_destroy]),
      (flexio_process_call l2_reflector_device_init,
         [l2_reflector_device_resources_destroy, l2_reflector_device_destroy,
          l2_reflector_ibv_device_destroy, doca_argp_destroy]),
      (l2_reflector_create_steering_rule_rx,
         [l2_reflector_device_resources_destroy, l2_reflector_device_destroy,
          l2_reflector_ibv_device_destroy, doca_argp_destroy]),
      (l2_reflector_create_steering_rule_tx,
         [l2_reflector_steering_rules_destroy, l2_reflector_device_resources_destroy,
          l2_reflector_device_destroy, l2_reflector_ibv_device_destroy, doca_argp_destroy]),
      (flexio_event_handler_run,
         [l2_reflector_steering_rules_destroy, l2_reflector_device_resources_destroy,
          l2_reflector_device_destroy, l2_reflector_ibv_device_destroy, doca_argp_destroy])]"

fun failures :: "event list \<Rightarrow> (call \<times> call list) list \<Rightarrow> event list list" where
  "failures done [] = []"
| "failures done ((c, u) # rest) =
     (done @ Call c False # map (\<lambda>c. Call c True) u) # failures (done @ [Call c True]) rest"

fun kills :: "event list \<Rightarrow> (call \<times> call list) list \<Rightarrow> event list list" where
  "kills done [] = []"
| "kills done ((c, u) # rest) = done # kills (done @ [Call c True]) rest"

subsection \<open>Further scripts\<close>

text \<open>
  The counter sequence \<open>[0,0,5,5,5,9]\<close> of the specification, one value per second;
  the first value is the one the first counter read returns.
\<close>

definition scripted :: "world list" where
  "scripted = map (\<lambda>(t, c). tick t c) [(0, 0), (1, 0), (2, 5), (3, 5), (4, 5), (5, 9)]"

text \<open>The TX steering rule fails; stage 3 fails.\<close>

definition tx_fails :: "world list" where
  "tx_fails = replicate 11 quiet @ [failing]"

definition stage3_fails :: "world list" where
  "stage3_fails = replicate 8 quiet @ [failing]"

text \<open>SIGINT arrives during the call of stage 2, before any handler is installed.\<close>

definition early_sigint :: "world list" where
  "early_sigint = replicate 7 quiet @ [quiet\<lparr>sigs := [SIGINT]\<rparr>]"

text \<open>The first read returns 0; SIGINT arrives during the first sleep, once and twice.\<close>

definition cancelled_once :: "world list" where
  "cancelled_once =
     startup @ [tick 0 0, tick 0 0, tick 0 0, (tick 2 0)\<lparr>sigs := [SIGINT]\<rparr>, tick 2 0]"

definition cancelled_twice :: "world list" where
  "cancelled_twice =
     startup @ [tick 0 0, tick 0 0, tick 0 0, (tick 2 0)\<lparr>sigs := [SIGINT, SIGINT]\<rparr>, tick 2 0]"

text \<open>
  SIGINT arrives while the condition of line 177 calls \<^verbatim>\<open>time\<close>, after \<^verbatim>\<open>force_quit\<close>
  has been read; the counter read that follows fails.
\<close>

definition cancelled_then_read_fails :: "world list" where
  "cancelled_then_read_fails = startup @ [tick 0 0, (tick 0 0)\<lparr>sigs := [SIGINT]\<rparr>, failing]"

text \<open>A run that reads 7 packets in second 5 and ends when the window has elapsed.\<close>

definition one_burst :: "world list" where
  "one_burst = startup @ [tick 0 0, tick 0 0, tick 5 7, tick 5 7, tick 60 7]"

text \<open>A run whose first counter read, in second 5, returns \<open>2^31\<close>.\<close>

definition big_burst :: "world list" where
  "big_burst =
     startup @ [tick 0 0, tick 0 0, tick 5 2147483648, tick 5 2147483648, tick 60 2147483648]"

text \<open>A run in which \<^verbatim>\<open>localtime\<close> reports a leap second when progress is seen.\<close>

definition leap_second :: "world list" where
  "leap_second =
     startup @ [tick 59 0, tick 59 0, tick 59 7, (tick 60 7)\<lparr>tm_sec := 60\<rparr>]"

section \<open>Termination of the model of the loop\<close>

text \<open>Every pass of the loop of line 177 takes at least one snapshot of the script.\<close>

lemma ext_shorter:
  "ext c s p ws = Inr (w, p', ws') \<Longrightarrow> length ws' < length ws"
  by (auto simp: ext_def split: list.splits sum.splits)

lemma wait_unchanged_shorter:
  "wait_unchanged p ws = Some (Inr (p', ws')) \<Longrightarrow> length ws' \<le> length ws"
proof (induction p ws rule: wait_unchanged.induct)
  case (1 p)
  then show ?case by (simp split: if_splits)
next
  case (2 p w ws)
  show ?case
  proof (cases "\<not> force_quit p \<and> last_rpc_val p = ret_rpc_val p")
    case True
    with 2 show ?thesis by (auto split: sum.splits)
  next
    case False
    with 2 show ?thesis by auto
  qed
qed

termination telemetry_loop
  by (relation "measure (\<lambda>(p, ws). length ws)")
     (auto dest!: ext_shorter wait_unchanged_shorter)

declare telemetry_loop.simps [simp del]

section \<open>The shape of every run\<close>

subsection \<open>Polling only extends the trace\<close>

lemma cancelling_append [simp]: "cancelling (a @ b) \<longleftrightarrow> cancelling a \<or> cancelling b"
  by (auto simp: cancelling_def)

lemma cancelling_Cons:
  "cancelling (e # es) \<longleftrightarrow> e = Handler SIGINT \<or> e = Handler SIGTERM \<or> cancelling es"
  by (auto simp: cancelling_def)

lemma sleeps_simps [simp]:
  "sleeps [] = 0" "sleeps (Handler s # es) = sleeps es"
  "sleeps (Call c b # es) = (if c = sleep \<and> b then Suc (sleeps es) else sleeps es)"
  "sleeps (xs @ ys) = sleeps xs + sleeps ys"
  by (auto simp: sleeps_def)

lemma prompt_append:
  "prompt a \<Longrightarrow> prompt b \<Longrightarrow> (cancelling a \<longrightarrow> sleeps b = 0) \<Longrightarrow> prompt (a @ b)"
  by (induction a) (auto simp: cancelling_Cons)

lemma sleeps_handlers [simp]: "sleeps (map Handler ss) = 0"
  by (induction ss) auto

lemma prompt_handlers_sleep: "prompt (map Handler ss @ [Call sleep True])"
  by (induction ss) auto

lemma prompt_handlers: "prompt (map Handler ss)"
  by (induction ss) auto

lemma prompt_calls: "\<forall>s. Handler s \<notin> set es \<Longrightarrow> prompt es"
  by (induction es) auto

lemma prompt_split:
  "prompt tr \<Longrightarrow> tr = pre @ Handler s # post \<Longrightarrow> s = SIGINT \<or> s = SIGTERM
     \<Longrightarrow> sleeps post \<le> 1"
  by (induction pre arbitrary: tr) (auto split: if_splits)

lemma extends_refl: "extends p [] p"
  by (simp add: extends_def cancelling_def)

lemma extends_trans:
  assumes "extends p a q" "extends q b r"
  shows "extends p (a @ b) r"
proof -
  from assms have "cancelling a \<longrightarrow> sleeps b = 0"
    by (simp add: extends_def)
  with assms have "prompt (a @ b)"
    by (simp add: extends_def prompt_append)
  with assms show ?thesis
    by (auto simp: extends_def)
qed

lemma extends_deliver: "deliver s p = Inr q \<Longrightarrow> extends p [Handler s] q"
  by (auto simp: deliver_def signal_handler_def extends_def cancelling_def split: if_splits)

lemma deliver_Killed: "deliver s p = Inl k \<Longrightarrow> k = Killed s p \<and> s \<notin> set (handlers p)"
  by (auto simp: deliver_def split: if_splits)

lemma extends_deliver_all: "deliver_all ss p = Inr q \<Longrightarrow> extends p (map Handler ss) q"
proof (induction ss arbitrary: p)
  case Nil
  then show ?case using extends_refl by auto
next
  case (Cons s ss)
  then obtain p1 where 1: "deliver s p = Inr p1" and 2: "deliver_all ss p1 = Inr q"
    by (auto split: sum.splits)
  from extends_deliver [OF 1] Cons.IH [OF 2]
  have "extends p ([Handler s] @ map Handler ss) q"
    by (rule extends_trans)
  then show ?case by simp
qed

lemma extends_sleep:
  assumes "\<not> force_quit p" "deliver_all ss p = Inr p1"
  shows "extends p (map Handler ss @ [Call sleep True]) (logged sleep True p1)"
  using extends_deliver_all [OF assms(2)] assms(1)
  by (simp add: extends_def logged_def prompt_handlers_sleep cancelling_def)

lemma deliver_all_Killed:
  "deliver_all ss p = Inl k \<Longrightarrow>
     \<exists>mid q s. extends p mid q \<and> k = Killed s q \<and> s \<notin> set (handlers p)"
proof (induction ss arbitrary: p)
  case Nil
  then show ?case by simp
next
  case (Cons s ss)
  show ?case
  proof (cases "deliver s p")
    case (Inl k')
    with Cons.prems have "k = Killed s p \<and> s \<notin> set (handlers p)"
      using deliver_Killed by auto
    then show ?thesis using extends_refl by blast
  next
    case (Inr p1)
    with Cons.prems have "deliver_all ss p1 = Inl k" by simp
    from Cons.IH [OF this] obtain mid q s' where
      "extends p1 mid q" "k = Killed s' q" "s' \<notin> set (handlers p1)" by blast
    moreover have e: "extends p [Handler s] p1" using Inr by (rule extends_deliver)
    ultimately have "extends p ([Handler s] @ mid) q" "s' \<notin> set (handlers p)"
      using extends_trans by (blast, simp add: extends_def)
    then show ?thesis using \<open>k = Killed s' q\<close> by blast
  qed
qed

lemma extends_logged:
  "polling (Call c b) \<Longrightarrow> c \<noteq> sleep \<Longrightarrow> extends p [Call c b] (logged c b p)"
  by (simp add: extends_def logged_def cancelling_def)

lemma ext_Inr:
  assumes "ext c st p ws = Inr (w, q, ws')"
  shows "\<exists>mid q0. extends p mid q0 \<and> q = logged c (if st then ok w else True) q0"
proof -
  from assms obtain q0 where "deliver_all (sigs w) p = Inr q0"
    and "q = logged c (if st then ok w else True) q0"
    by (auto simp: ext_def split: list.splits sum.splits)
  then show ?thesis using extends_deliver_all by blast
qed

lemma ext_Inl:
  assumes "ext c st p ws = Inl (Some k)"
  shows "\<exists>mid q s. extends p mid q \<and> k = Killed s q \<and> s \<notin> set (handlers p)"
proof -
  from assms obtain w ws' where "ws = w # ws'"
    by (cases ws) (auto simp: ext_def)
  with assms have "deliver_all (sigs w) p = Inl k"
    by (auto simp: ext_def split: sum.splits)
  then show ?thesis by (rule deliver_all_Killed)
qed

lemma ext_polling:
  assumes "ext c False p ws = Inr (w, q, ws')" "polling (Call c True)" "c \<noteq> sleep"
  shows "\<exists>mid. extends p mid q"
proof -
  from ext_Inr [OF assms(1)] obtain mid q0 where
    "extends p mid q0" "q = logged c True q0" by auto
  with extends_logged [OF assms(2,3), of q0] have "extends p (mid @ [Call c True]) q"
    using extends_trans by blast
  then show ?thesis ..
qed

lemma wait_unchanged_Inr:
  "wait_unchanged p ws = Some (Inr (q, ws')) \<Longrightarrow> \<exists>mid. extends p mid q"
proof (induction p ws rule: wait_unchanged.induct)
  case (1 p)
  then show ?case using extends_refl by (auto split: if_splits)
next
  case (2 p w ws)
  show ?case
  proof (cases "\<not> force_quit p \<and> last_rpc_val p = ret_rpc_val p")
    case True
    with "2.prems" obtain p1 where d: "deliver_all (sigs w) p = Inr p1"
      and r: "wait_unchanged (logged sleep True p1) ws = Some (Inr (q, ws'))"
      by (auto split: sum.splits)
    from "2.IH" [OF True d r] obtain m2 where "extends (logged sleep True p1) m2 q" ..
    moreover from True d
    have "extends p (map Handler (sigs w) @ [Call sleep True]) (logged sleep True p1)"
      by (intro extends_sleep) simp_all
    ultimately show ?thesis using extends_trans by blast
  next
    case False
    with "2.prems" show ?thesis using extends_refl by auto
  qed
qed

lemma wait_unchanged_Inl:
  "wait_unchanged p ws = Some (Inl k) \<Longrightarrow>
     \<exists>mid q s. extends p mid q \<and> k = Killed s q \<and> s \<notin> set (handlers p)"
proof (induction p ws rule: wait_unchanged.induct)
  case (1 p)
  then show ?case by (auto split: if_splits)
next
  case (2 p w ws)
  from "2.prems" have c: "\<not> force_quit p \<and> last_rpc_val p = ret_rpc_val p"
    by (auto split: if_splits)
  show ?case
  proof (cases "deliver_all (sigs w) p")
    case (Inl k')
    with c "2.prems" have "k' = k" by simp
    with Inl show ?thesis using deliver_all_Killed by blast
  next
    case (Inr p1)
    with c "2.prems" have r: "wait_unchanged (logged sleep True p1) ws = Some (Inl k)"
      by simp
    from "2.IH" [OF c Inr r] obtain m2 q s where
      "extends (logged sleep True p1) m2 q" "k = Killed s q"
      "s \<notin> set (handlers (logged sleep True p1))" by blast
    moreover from c Inr
    have m1: "extends p (map Handler (sigs w) @ [Call sleep True]) (logged sleep True p1)"
      by (intro extends_sleep) simp_all
    moreover have "handlers (logged sleep True p1) = handlers p"
      using m1 by (simp add: extends_def)
    ultimately show ?thesis using extends_trans by metis
  qed
qed

lemma extends_record_progress: "record_progress sec p = Some q \<Longrightarrow> extends p [] q"
  by (auto simp: record_progress_def store_def extends_def cancelling_def
           split: if_splits option.splits)

lemma ends_extends: "extends p a p' \<Longrightarrow> ends p' out \<Longrightarrow> ends p out"
  unfolding ends_def using extends_trans by blast

lemma ends_Killed:
  assumes "extends p a q" "s \<notin> set (handlers p)"
  shows "ends p (Killed s q)"
proof -
  have "s \<notin> set (handlers q)" using assms by (simp add: extends_def)
  with assms(1) show ?thesis unfolding ends_def by blast
qed

lemma ends_finish:
  "force_quit p \<or> SIMULATION_TIME \<le> head_time p - start_time p \<Longrightarrow> ends p (finish p)"
  unfolding ends_def using extends_refl by blast

lemma ends_rule_cleanup:
  "ends p (rule_cleanup (logged (flexio_process_call get_processed_packets_num) False p))"
  unfolding ends_def using extends_refl by blast

lemma ends_Fault: "ends p (Fault p)"
  unfolding ends_def using extends_refl by blast

lemma ends_ext_Inl: "ext c st p ws = Inl (Some out) \<Longrightarrow> ends p out"
  using ext_Inl ends_Killed by blast

lemma extends_head_time: "extends p [] (p\<lparr>head_time := t\<rparr>)"
  by (simp add: extends_def cancelling_def)

lemma extends_ret_rpc_val: "extends p [] (p\<lparr>ret_rpc_val := v\<rparr>)"
  by (simp add: extends_def cancelling_def)

lemma telemetry_loop_ends: "telemetry_loop p ws = Some out \<Longrightarrow> ends p out"
proof (induction p ws rule: telemetry_loop.induct)
  case (1 p ws)
  let ?rpc = "flexio_process_call get_processed_packets_num"
  show ?case
  proof (cases "force_quit p")
    case True
    with "1.prems" have "out = finish p" by (simp add: telemetry_loop.simps)
    with True show ?thesis using ends_finish by simp
  next
    case nq: False
    show ?thesis
    proof (cases "ext time False p ws")
      case (Inl r)
      with nq "1.prems" have "ext time False p ws = Inl (Some out)"
        by (simp add: telemetry_loop.simps)
      then show ?thesis by (rule ends_ext_Inl)
    next
      case (Inr t)
      then obtain w1 p0 ws1 where e1: "ext time False p ws = Inr (w1, p0, ws1)"
        by (cases t) auto
      define p1 where "p1 = p0\<lparr>head_time := clock w1\<rparr>"
      obtain m1 where "extends p m1 p0" using ext_polling [OF e1] by auto
      from extends_trans [OF this extends_head_time [of p0 "clock w1"]]
      have x1: "extends p (m1 @ []) p1"
        unfolding p1_def .
      have "ends p1 out"
      proof (cases "clock w1 - start_time p1 < SIMULATION_TIME")
        case False
        with nq e1 "1.prems" have "out = finish p1"
          by (simp add: telemetry_loop.simps p1_def)
        moreover have "SIMULATION_TIME \<le> head_time p1 - start_time p1"
          using False by (simp add: p1_def)
        ultimately show ?thesis using ends_finish by simp
      next
        case inwin: True
        show ?thesis
        proof (cases "ext ?rpc True p1 ws1")
          case (Inl r)
          with nq e1 inwin "1.prems" have "ext ?rpc True p1 ws1 = Inl (Some out)"
            by (simp add: telemetry_loop.simps p1_def)
          then show ?thesis by (rule ends_ext_Inl)
        next
          case (Inr t2)
          then obtain w2 p2 ws2 where e2: "ext ?rpc True p1 ws1 = Inr (w2, p2, ws2)"
            by (cases t2) auto
          from ext_Inr [OF e2] obtain m2 q2 where
            x2: "extends p1 m2 q2" and p2: "p2 = logged ?rpc (ok w2) q2" by auto
          show ?thesis
          proof (cases "ok w2")
            case False
            with nq e1 inwin e2 "1.prems" have "out = rule_cleanup p2"
              by (simp add: telemetry_loop.simps p1_def)
            with False p2 have "ends q2 out" using ends_rule_cleanup by simp
            with x2 show ?thesis by (rule ends_extends)
          next
            case okr: True
            define p2' where "p2' = p2\<lparr>ret_rpc_val := counter w2\<rparr>"
            have "extends q2 [Call ?rpc True] p2"
              using okr p2 extends_logged [of ?rpc True q2] by simp
            with x2 have "extends p1 (m2 @ [Call ?rpc True]) p2" by (rule extends_trans)
            from extends_trans [OF this extends_ret_rpc_val [of p2 "counter w2"]]
            have x2': "extends p1 ((m2 @ [Call ?rpc True]) @ []) p2'"
              unfolding p2'_def .
            have "ends p2' out"
            proof (cases "wait_unchanged p2' ws2")
              case None
              with nq e1 inwin e2 okr "1.prems" show ?thesis
                by (simp add: telemetry_loop.simps p1_def p2'_def)
            next
              case (Some r)
              show ?thesis
              proof (cases r)
                case (Inl k)
                with Some nq e1 inwin e2 okr "1.prems" have "k = out"
                  by (simp add: telemetry_loop.simps p1_def p2'_def)
                with Some Inl show ?thesis
                  using wait_unchanged_Inl ends_Killed by blast
              next
                case (Inr t3)
                then obtain p3 ws3 where
                  e3: "wait_unchanged p2' ws2 = Some (Inr (p3, ws3))"
                  using Some by (cases t3) auto
                obtain m3 where x3: "extends p2' m3 p3"
                  using wait_unchanged_Inr [OF e3] ..
                have "ends p3 out"
                proof (cases "ext time False p3 ws3")
                  case (Inl r4)
                  with nq e1 inwin e2 okr e3 "1.prems"
                  have "ext time False p3 ws3 = Inl (Some out)"
                    by (simp add: telemetry_loop.simps p1_def p2'_def)
                  then show ?thesis by (rule ends_ext_Inl)
                next
                  case (Inr t4)
                  then obtain w4 p4 ws4 where
                    e4: "ext time False p3 ws3 = Inr (w4, p4, ws4)"
                    by (cases t4) auto
                  obtain m4 where "extends p3 m4 p4" using ext_polling [OF e4] by auto
                  moreover have "extends p4 [Call localtime True] (void localtime p4)"
                    unfolding void_def by (rule extends_logged) simp_all
                  ultimately have x4: "extends p3 (m4 @ [Call localtime True]) (void localtime p4)"
                    by (rule extends_trans)
                  have "ends (void localtime p4) out"
                  proof (cases "record_progress (tm_sec w4) (void localtime p4)")
                    case None
                    with nq e1 inwin e2 okr e3 e4 "1.prems"
                    have "out = Fault (void localtime p4)"
                      by (simp add: telemetry_loop.simps p1_def p2'_def)
                    then show ?thesis using ends_Fault by simp
                  next
                    case (Some p5)
                    with nq e1 inwin e2 okr e3 e4 "1.prems"
                    have tl: "telemetry_loop p5 ws4 = Some out"
                      by (simp add: telemetry_loop.simps p1_def p2'_def)
                    have "ends p5 out"
                      by (rule "1.IH" [OF nq e1 refl refl p1_def _ e2 refl refl _
                            e3 [unfolded p2'_def] refl refl e4 refl refl Some])
                         (use inwin okr tl in simp_all)
                    with extends_record_progress [OF Some] show ?thesis
                      by (rule ends_extends)
                  qed
                  with x4 show ?thesis by (rule ends_extends)
                qed
                with x3 show ?thesis by (rule ends_extends)
              qed
            qed
            with x2' show ?thesis by (rule ends_extends)
          qed
        qed
      qed
      with x1 show ?thesis by (rule ends_extends)
    qed
  qed
qed

subsection \<open>Before the handlers are installed\<close>

lemma extends_start_time: "extends p [] (p\<lparr>start_time := t\<rparr>)"
  by (simp add: extends_def cancelling_def)

lemma observe_ends:
  assumes "observe p ws = Some out"
  shows "ends (install p) out"
proof -
  have i: "void (signal SIGTERM)
             ((void (signal SIGINT) (p\<lparr>handlers := SIGINT # handlers p\<rparr>))
                \<lparr>handlers := SIGTERM # handlers (void (signal SIGINT) (p\<lparr>handlers := SIGINT # handlers p\<rparr>))\<rparr>)
           = install p"
    by (simp add: install_def void_def logged_def)
  show ?thesis
  proof (cases "ext time False (install p) ws")
    case (Inl r)
    with assms i have "ext time False (install p) ws = Inl (Some out)"
      by (simp add: observe_def Let_def)
    then show ?thesis by (rule ends_ext_Inl)
  next
    case (Inr t)
    then obtain w p3 ws' where e: "ext time False (install p) ws = Inr (w, p3, ws')"
      by (cases t) auto
    with assms i
    have "telemetry_loop (void localtime (p3\<lparr>start_time := clock w\<rparr>)) ws' = Some out"
      by (simp add: observe_def Let_def)
    then have "ends (void localtime (p3\<lparr>start_time := clock w\<rparr>)) out"
      by (rule telemetry_loop_ends)
    moreover have "extends (p3\<lparr>start_time := clock w\<rparr>) [Call localtime True]
        (void localtime (p3\<lparr>start_time := clock w\<rparr>))"
      unfolding void_def by (rule extends_logged) simp_all
    moreover note extends_start_time [of p3 "clock w"]
    moreover obtain m where "extends (install p) m p3" using ext_polling [OF e] by auto
    ultimately show ?thesis using ends_extends by blast
  qed
qed

lemma deliver_all_unhandled:
  "handlers p = [] \<Longrightarrow>
     deliver_all ss p = (case ss of [] \<Rightarrow> Inr p | s # _ \<Rightarrow> Inl (Killed s p))"
  by (cases ss) (simp_all add: deliver_def)

lemma ext_unhandled:
  "handlers p = [] \<Longrightarrow>
     ext c st p ws =
       (case ws of
          [] \<Rightarrow> Inl None
        | w # ws' \<Rightarrow>
            (case sigs w of
               [] \<Rightarrow> Inr (w, logged c (if st then ok w else True) p, ws')
             | s # _ \<Rightarrow> Inl (Some (Killed s p))))"
  by (simp add: ext_def deliver_all_unhandled split: list.splits)

lemma handlers_logged [simp]: "handlers (logged c b p) = handlers p"
  by (simp add: logged_def)

lemma handlers_initial [simp]: "handlers initial = []"
  by (simp add: initial_def)



subsection \<open>Running a script\<close>

lemma ext_quiet:
  "sigs w = [] \<Longrightarrow> ext c st p (w # ws) = Inr (w, logged c (if st then ok w else True) p, ws)"
  by (simp add: ext_def)

lemma startup_unfold:
  "startup @ ws = quiet # quiet # quiet # quiet # quiet # quiet # quiet # quiet # quiet
      # quiet # quiet # quiet # quiet # ws"
  by (simp add: startup_def numeral_eq_Suc)

lemma quiet_simps [simp]: "sigs quiet = []" "ok quiet"
  by (simp_all add: quiet_def)

lemma tick_simps [simp]:
  "sigs (tick t c) = []" "ok (tick t c)" "counter (tick t c) = c" "clock (tick t c) = t"
  "tm_sec (tick t c) = t mod 60"
  by (simp_all add: tick_def)

lemma main_startup: "main (startup @ ws) = observe launched ws"
  unfolding startup_unfold main_def acquire_def
  by (simp add: ext_quiet launched_def logged_def initial_def)

lemma observe_quiet:
  "sigs w = [] \<Longrightarrow>
     observe p (w # ws) =
       telemetry_loop (void localtime (logged time True (install p)\<lparr>start_time := clock w\<rparr>)) ws"
  by (simp add: observe_def Let_def ext_quiet install_def void_def logged_def)

lemmas run_simps = ext_quiet Let_def telemetry_loop.simps launched_def install_def void_def
  logged_def record_progress_def store_def finish_def final_report_def initial_def
  SIMULATION_TIME_def

lemma wait_unchanged_progress:
  "last_rpc_val p \<noteq> ret_rpc_val p \<Longrightarrow> wait_unchanged p ws = Some (Inr (p, ws))"
  by (cases ws) simp_all

lemma wait_unchanged_forever:
  "\<not> force_quit p \<Longrightarrow> last_rpc_val p = ret_rpc_val p \<Longrightarrow> \<forall>w\<in>set ws. sigs w = []
     \<Longrightarrow> wait_unchanged p ws = None"
  by (induction ws arbitrary: p) (simp_all add: logged_def)

lemma telemetry_loop_stalls:
  assumes "\<not> force_quit p" "sigs w1 = []" "sigs w2 = []" "\<forall>w\<in>set ws. sigs w = []"
    and "clock w1 - start_time p < SIMULATION_TIME" "ok w2" "counter w2 = last_rpc_val p"
  shows "telemetry_loop p (w1 # w2 # ws) = None"
  using assms
  by (subst telemetry_loop.simps)
     (simp add: ext_quiet logged_def wait_unchanged_forever)

lemma list_update_replicate_same: "(replicate n x)[i := x] = replicate n x"
  by (induction n arbitrary: i) (auto split: nat.splits)

lemma narrow_small:
  fixes d :: "64 word"
  assumes a: "uint d < 2 ^ 31"
  shows "sint (ucast d :: 32 word) = uint d"
proof -
  have "(0::int) \<le> uint d" by simp
  moreover have "- (2 ^ 31) \<le> (0::int)" by simp
  ultimately have b: "- (2 ^ 31) \<le> uint d" by (rule order_trans [rotated])
  have "sint (ucast d :: 32 word) = signed_take_bit 31 (uint d)"
    by (simp add: signed_ucast_eq)
  also have "\<dots> = uint d" using b a by (rule signed_take_bit_int_eq_self)
  finally show ?thesis by simp
qed

subsection \<open>Every run of main\<close>

lemma initial_simps [simp]: "trace initial = []" "\<not> force_quit initial" "printed initial = None"
  by (simp_all add: initial_def)

lemmas cleanup_defs = rule_cleanup_def device_resources_cleanup_def device_cleanup_def
  ibv_device_cleanup_def void_def logged_def

lemma polling_not_failed: "list_all polling mid \<Longrightarrow> Call call False \<notin> set mid"
  by (auto simp: list_all_iff)

lemma released_append [simp]: "released d (a @ b) = released d a @ released d b"
  by (induction d a rule: released.induct) simp_all

lemma released_polling: "list_all polling mid \<Longrightarrow> released d mid = []"
  by (induction d mid rule: released.induct) auto

lemma polling_acquire:
  assumes "list_all polling mid"
  shows "Call l2_reflector_setup_ibv_device b \<notin> set mid"
    "Call l2_reflector_setup_device b \<notin> set mid"
    "Call l2_reflector_allocate_device_resources b \<notin> set mid"
    "Call l2_reflector_create_steering_rule_rx b \<notin> set mid"
    "Call l2_reflector_create_steering_rule_tx b \<notin> set mid"
    "Call (flexio_process_call l2_reflector_device_init) b \<notin> set mid"
    "Call flexio_event_handler_run b \<notin> set mid"
    "Call (signal s) b \<notin> set mid"
  using assms by (auto simp: list_all_iff)

lemma trace_install_launched:
  "trace (install launched) = map (\<lambda>c. Call c True)
     [doca_log_backend_create_standard, doca_log_backend_create_with_file_sdk,
      doca_log_backend_set_sdk_level, doca_argp_init, register_l2_reflector_params,
      doca_argp_start, l2_reflector_setup_ibv_device, l2_reflector_setup_device,
      l2_reflector_allocate_device_resources, flexio_process_call l2_reflector_device_init,
      l2_reflector_create_steering_rule_rx, l2_reflector_create_steering_rule_tx,
      flexio_event_handler_run, signal SIGINT, signal SIGTERM]"
  by (simp add: install_def launched_def)

lemma install_launched_simps [simp]:
  "\<not> force_quit (install launched)" "printed (install launched) = None"
  "handlers (install launched) = [SIGTERM, SIGINT]"
  by (simp_all add: install_def launched_def)

lemma launched_unfold:
  "initial\<lparr>trace :=
     [Call doca_log_backend_create_standard True,
      Call doca_log_backend_create_with_file_sdk True,
      Call doca_log_backend_set_sdk_level True, Call doca_argp_init True,
      Call register_l2_reflector_params True, Call doca_argp_start True,
      Call l2_reflector_setup_ibv_device True, Call l2_reflector_setup_device True,
      Call l2_reflector_allocate_device_resources True,
      Call (flexio_process_call l2_reflector_device_init) True,
      Call l2_reflector_create_steering_rule_rx True,
      Call l2_reflector_create_steering_rule_tx True,
      Call flexio_event_handler_run True]\<rparr> = launched"
  by (simp add: launched_def)

lemma ends_exit:
  assumes "ends (install launched) (Exit c p)"
  shows "(c = EXIT_SUCCESS \<or> c = EXIT_FAILURE) \<and>
         (c = EXIT_SUCCESS \<longleftrightarrow> printed p \<noteq> None) \<and>
         (c = EXIT_FAILURE \<longleftrightarrow> (\<exists>call. Call call False \<in> set (trace p))) \<and>
         (printed p \<noteq> None \<longrightarrow>
            (force_quit p \<or> SIMULATION_TIME \<le> head_time p - start_time p) \<and>
            acquired_domains (trace p) = domains \<and>
            Call (flexio_process_call l2_reflector_device_init) True \<in> set (trace p) \<and>
            Call flexio_event_handler_run True \<in> set (trace p))"
proof -
  from assms obtain mid q where x: "extends (install launched) mid q"
    and o: "Exit c p = finish q \<and> (force_quit q \<or> SIMULATION_TIME \<le> head_time q - start_time q)
         \<or> Exit c p = rule_cleanup (logged (flexio_process_call get_processed_packets_num) False q)"
    by (auto simp: ends_def)
  from x have tr: "trace q = trace (install launched) @ mid" and pm: "list_all polling mid"
    and pr: "printed q = None"
    by (simp_all add: extends_def)
  from o show ?thesis
  proof
    assume "Exit c p = finish q \<and> (force_quit q \<or> SIMULATION_TIME \<le> head_time q - start_time q)"
    then show ?thesis using tr pr polling_not_failed [OF pm]
      by (auto simp: finish_def cleanup_defs trace_install_launched domains_def
          acquired_domains_def EXIT_SUCCESS_def EXIT_FAILURE_def)
  next
    assume "Exit c p = rule_cleanup (logged (flexio_process_call get_processed_packets_num) False q)"
    then show ?thesis using tr pr
      by (auto simp: cleanup_defs EXIT_SUCCESS_def EXIT_FAILURE_def)
  qed
qed

lemmas main_unfold = main_def acquire_def ext_unhandled logged_def launched_unfold

lemma main_cases:
  assumes "main ws = Some out"
  shows "(\<exists>ws'. observe launched ws' = Some out) \<or>
         proc_of out = initial\<lparr>trace := trace (proc_of out)\<rparr> \<and>
         (case out of
            Exit c p \<Rightarrow> c = EXIT_FAILURE \<and> trace p \<in> set (failures [] setup_steps)
          | Killed s p \<Rightarrow> trace p \<in> set (kills [] setup_steps)
          | Fault p \<Rightarrow> False)"
  using assms
  by (simp add: main_unfold split: list.splits if_splits)
     (auto simp: cleanup_defs setup_steps_def)

lemma early_exit_code:
  "\<forall>tr\<in>set (failures [] setup_steps). \<exists>call. Call call False \<in> set tr"
  by (simp add: setup_steps_def)

lemma early_released:
  "\<forall>tr\<in>set (failures [] setup_steps).
     released d tr = rev (held_domains tr) \<and>
     held_domains tr = take (length (held_domains tr)) domains \<and>
     (held_domains tr = acquired_domains tr \<or>
      held_domains tr = domains \<and>
      Call l2_reflector_create_steering_rule_tx False \<in> set tr)"
  by (simp add: setup_steps_def domains_def held_domains_def acquired_domains_def)

lemma ends_released:
  assumes "ends (install launched) (Exit c p)"
  shows "(c = EXIT_SUCCESS \<and> released d (trace p) = d \<or>
          c = EXIT_FAILURE \<and> released d (trace p) = rev domains) \<and>
         held_domains (trace p) = domains \<and> acquired_domains (trace p) = domains"
proof -
  from assms obtain mid q where x: "extends (install launched) mid q"
    and o: "Exit c p = finish q
         \<or> Exit c p = rule_cleanup (logged (flexio_process_call get_processed_packets_num) False q)"
    by (auto simp: ends_def)
  from x have tr: "trace q = trace (install launched) @ mid" and pm: "list_all polling mid"
    by (simp_all add: extends_def)
  from o tr released_polling [OF pm, of d] show ?thesis
    by (auto simp: finish_def cleanup_defs trace_install_launched domains_def
        held_domains_def acquired_domains_def)
qed

lemma early_state:
  assumes "p = initial\<lparr>trace := trace p\<rparr>"
  shows "\<not> force_quit p" "handlers p = []" "printed p = None"
proof -
  have "\<not> force_quit (initial\<lparr>trace := trace p\<rparr>)" "handlers (initial\<lparr>trace := trace p\<rparr>) = []"
    "printed (initial\<lparr>trace := trace p\<rparr>) = None"
    by simp_all
  with assms show "\<not> force_quit p" "handlers p = []" "printed p = None"
    by simp_all
qed

lemma main_Exit_cases:
  assumes "main ws = Some (Exit c p)"
  obtains (telemetry) "ends (install launched) (Exit c p)"
  | (early) "p = initial\<lparr>trace := trace p\<rparr>" "c = EXIT_FAILURE"
      "trace p \<in> set (failures [] setup_steps)"
  using main_cases [OF assms] observe_ends by auto

subsection \<open>Signals\<close>

lemma deliver_all_handled:
  "s \<in> set (handlers p) \<Longrightarrow>
     deliver_all [s] p = Inr (signal_handler s (p\<lparr>trace := trace p @ [Handler s]\<rparr>))"
  by (simp add: deliver_def)

lemma wait_unchanged_cancelled: "force_quit p \<Longrightarrow> wait_unchanged p ws = Some (Inr (p, ws))"
  by (cases ws) simp_all

lemma telemetry_loop_cancelled: "force_quit p \<Longrightarrow> telemetry_loop p ws = Some (finish p)"
  by (simp add: telemetry_loop.simps)

lemma wait_unchanged_until_signal:
  assumes "\<not> force_quit p" "last_rpc_val p = ret_rpc_val p"
    and "\<forall>w\<in>set qs. sigs w = []"
    and "sigs w = [s]" "s = SIGINT \<or> s = SIGTERM" "s \<in> set (handlers p)"
  shows "wait_unchanged p (qs @ w # ws) =
         Some (Inr (p\<lparr>trace := trace p @ replicate (length qs) (Call sleep True)
                                  @ [Handler s, Call sleep True],
                       force_quit := True\<rparr>, ws))"
  using assms
proof (induction qs arbitrary: p)
  case Nil
  then show ?case
    by (auto simp: deliver_def signal_handler_def logged_def wait_unchanged_cancelled)
next
  case (Cons q qs)
  have "wait_unchanged p ((q # qs) @ w # ws) = wait_unchanged (logged sleep True p) (qs @ w # ws)"
    using Cons.prems by simp
  also have "\<dots> = Some (Inr ((logged sleep True p)\<lparr>trace := trace (logged sleep True p)
                              @ replicate (length qs) (Call sleep True)
                              @ [Handler s, Call sleep True], force_quit := True\<rparr>, ws))"
    using Cons.prems by (intro Cons.IH) (simp_all add: logged_def)
  finally show ?case by (simp add: logged_def replicate_app_Cons_same)
qed

lemma ends_cancelled:
  assumes "ends (install launched) out" "cancelling (trace (proc_of out))"
  shows "force_quit (proc_of out)"
proof -
  from assms(1) obtain mid q where x: "extends (install launched) mid q"
    and o: "out = finish q
         \<or> out = rule_cleanup (logged (flexio_process_call get_processed_packets_num) False q)
         \<or> (\<exists>s. out = Killed s q) \<or> out = Fault q"
    by (auto simp: ends_def)
  from x have tr: "trace q = trace (install launched) @ mid"
    and fq: "force_quit q \<longleftrightarrow> cancelling mid"
    by (simp_all add: extends_def)
  from o assms(2) tr have "cancelling mid"
    by (auto simp: finish_def cleanup_defs trace_install_launched cancelling_def)
  with fq o show ?thesis
    by (auto simp: finish_def cleanup_defs)
qed

lemma early_no_handler:
  "\<forall>tr\<in>set (failures [] setup_steps) \<union> set (kills [] setup_steps).
      (\<forall>s. Handler s \<notin> set tr) \<and> (\<forall>s b. Call (signal s) b \<notin> set tr)"
  by (simp add: setup_steps_def)

lemma kills_released:
  "\<forall>tr\<in>set (kills [] setup_steps). released d tr = []"
  by (simp add: setup_steps_def)

lemma ends_prefix:
  assumes "ends (install launched) out"
  shows "take 15 (trace (proc_of out)) = trace (install launched)"
    "handlers (proc_of out) = [SIGTERM, SIGINT]"
proof -
  from assms(1) obtain mid q where x: "extends (install launched) mid q"
    and o: "out = finish q
         \<or> out = rule_cleanup (logged (flexio_process_call get_processed_packets_num) False q)
         \<or> (\<exists>s. out = Killed s q) \<or> out = Fault q"
    by (auto simp: ends_def)
  from x have tr: "trace q = trace (install launched) @ mid"
    and h: "handlers q = [SIGTERM, SIGINT]"
    by (simp_all add: extends_def)
  have l: "length (trace (install launched)) = 15"
    by (simp add: trace_install_launched)
  from o tr l show "take 15 (trace (proc_of out)) = trace (install launched)"
    by (auto simp: finish_def cleanup_defs)
  from o h show "handlers (proc_of out) = [SIGTERM, SIGINT]"
    by (auto simp: finish_def cleanup_defs)
qed

lemma ends_prompt:
  assumes "ends (install launched) out"
  shows "prompt (trace (proc_of out))"
proof -
  from assms(1) obtain mid q where x: "extends (install launched) mid q"
    and o: "out = finish q
         \<or> out = rule_cleanup (logged (flexio_process_call get_processed_packets_num) False q)
         \<or> (\<exists>s. out = Killed s q) \<or> out = Fault q"
    by (auto simp: ends_def)
  from x have tr: "trace q = trace (install launched) @ mid" and pm: "prompt mid"
    by (simp_all add: extends_def)
  have pl: "prompt (trace (install launched))"
    by (rule prompt_calls) (simp add: trace_install_launched)
  from pl pm have "prompt (trace q)"
    unfolding tr by (rule prompt_append) (simp add: trace_install_launched cancelling_def)
  have pq: "prompt (trace q)" by fact
  have "prompt (trace q @ tl)" if "\<forall>s. Handler s \<notin> set tl" "sleeps tl = 0" for tl
  proof (rule prompt_append)
    show "prompt (trace q)" by (rule pq)
    show "prompt tl" using that(1) by (rule prompt_calls)
    show "cancelling (trace q) \<longrightarrow> sleeps tl = 0" using that(2) by simp
  qed
  from this [of "[Call l2_reflector_destroy True]"]
    this [of "Call (flexio_process_call get_processed_packets_num) False
       # map (\<lambda>c. Call c True) [l2_reflector_steering_rules_destroy,
           l2_reflector_device_resources_destroy, l2_reflector_device_destroy,
           l2_reflector_ibv_device_destroy, doca_argp_destroy]"]
    this [of "[]"] o
  show ?thesis
    by (auto simp: finish_def cleanup_defs)
qed

lemma early_signal_kills:
  assumes "length pre < 13" "list_all (\<lambda>w. sigs w = [] \<and> ok w) pre" "sigs w = s # ss"
  shows "main (pre @ w # rest) =
           Some (Killed s (initial\<lparr>trace := take (length pre) (trace launched)\<rparr>))"
proof -
  from assms(1) have "length pre = 0 \<or> length pre = 1 \<or> length pre = 2 \<or> length pre = 3
      \<or> length pre = 4 \<or> length pre = 5 \<or> length pre = 6 \<or> length pre = 7
      \<or> length pre = 8 \<or> length pre = 9 \<or> length pre = 10 \<or> length pre = 11
      \<or> length pre = 12"
    by arith
  then show ?thesis
    using assms(2,3)
    apply (elim disjE)
    apply (auto simp: length_Suc_conv numeral_eq_Suc)
    apply (simp_all add: main_def acquire_def ext_unhandled logged_def launched_def)
    done
qed

section \<open>The script a run reads\<close>

subsection \<open>What a signal leaves unchanged\<close>

text \<open>The handler writes \<^verbatim>\<open>force_quit\<close> only; the model adds the event to the trace.\<close>

lemma deliver_fields:
  "deliver s p = Inr q \<Longrightarrow> q = p\<lparr>force_quit := force_quit q, trace := trace q\<rparr>"
  by (auto simp: deliver_def signal_handler_def split: if_splits)

lemma deliver_all_fields:
  "deliver_all ss p = Inr q \<Longrightarrow> q = p\<lparr>force_quit := force_quit q, trace := trace q\<rparr>"
proof (induction ss arbitrary: p)
  case Nil
  then show ?case by simp
next
  case (Cons s ss)
  then obtain p1 where d: "deliver s p = Inr p1" and r: "deliver_all ss p1 = Inr q"
    by (auto split: sum.splits)
  from Cons.IH [OF r] have "q = p1\<lparr>force_quit := force_quit q, trace := trace q\<rparr>" .
  moreover from deliver_fields [OF d] have "p1 = p\<lparr>force_quit := force_quit p1, trace := trace p1\<rparr>" .
  ultimately show ?case
    by (metis (no_types) proc.surjective proc.update_convs(1,3) proc.select_convs)
qed

lemma deliver_all_same:
  assumes "deliver_all ss p = Inr q"
  shows "handlers q = handlers p" "ret_rpc_val q = ret_rpc_val p"
    "last_rpc_val q = last_rpc_val p" "packets_per_second q = packets_per_second p"
    "current_second q = current_second p" "start_time q = start_time p"
    "head_time q = head_time p" "printed q = printed p"
proof -
  from deliver_all_fields [OF assms]
  obtain f t where "q = p\<lparr>force_quit := f, trace := t\<rparr>" by blast
  then show "handlers q = handlers p" "ret_rpc_val q = ret_rpc_val p"
    "last_rpc_val q = last_rpc_val p" "packets_per_second q = packets_per_second p"
    "current_second q = current_second p" "start_time q = start_time p"
    "head_time q = head_time p" "printed q = printed p"
    by simp_all
qed

subsection \<open>Lines 193--201 in closed form\<close>

lemma record_progress_closed:
  "record_progress sec p =
     (if 0 \<le> sec \<and> sec < SIMULATION_TIME
      then Some (p\<lparr>current_second := sec,
                   packets_per_second :=
                     (packets_per_second p)[nat sec := ucast (ret_rpc_val p - last_rpc_val p)],
                   last_rpc_val := ret_rpc_val p\<rparr>)
      else None)"
  by (auto simp: record_progress_def store_def)

lemma narrow_iff:
  fixes d :: "64 word"
  shows "sint (ucast d :: 32 word) = uint d \<longleftrightarrow> uint d < 2 ^ 31"
proof
  assume "sint (ucast d :: 32 word) = uint d"
  moreover have "sint (ucast d :: 32 word) < 2 ^ 31"
    using sint_lt [of "ucast d :: 32 word"] by simp
  ultimately show "uint d < 2 ^ 31" by simp
next
  assume "uint d < 2 ^ 31"
  then show "sint (ucast d :: 32 word) = uint d" by (rule narrow_small)
qed

lemma ext_Cons:
  "ext c st p (w # ws) =
     (case deliver_all (sigs w) p of
        Inl k \<Rightarrow> Inl (Some k)
      | Inr p' \<Rightarrow> Inr (w, logged c (if st then ok w else True) p', ws))"
  by (simp add: ext_def)

lemma progress_pass:
  assumes "\<not> force_quit p" "deliver_all (sigs w1) p = Inr a"
    and "clock w1 - start_time p < SIMULATION_TIME"
    and "deliver_all (sigs w2) ((logged time True a)\<lparr>head_time := clock w1\<rparr>) = Inr b"
    and "ok w2" "counter w2 \<noteq> last_rpc_val p"
    and "deliver_all (sigs w3)
           ((logged (flexio_process_call get_processed_packets_num) True b)
              \<lparr>ret_rpc_val := counter w2\<rparr>) = Inr c"
  shows "telemetry_loop p (w1 # w2 # w3 # ws) =
         (if 0 \<le> tm_sec w3 \<and> tm_sec w3 < SIMULATION_TIME
          then telemetry_loop
                 (c\<lparr>trace := trace c @ [Call time True, Call localtime True],
                    current_second := tm_sec w3,
                    packets_per_second :=
                      (packets_per_second p)[nat (tm_sec w3) :=
                         ucast (counter w2 - last_rpc_val p)],
                    last_rpc_val := counter w2\<rparr>) ws
          else Some (Fault (c\<lparr>trace := trace c @ [Call time True, Call localtime True]\<rparr>)))"
proof -
  let ?rpc = "flexio_process_call get_processed_packets_num"
  note fa = deliver_all_same [OF assms(2)]
  note fb = deliver_all_same [OF assms(4)]
  note fc = deliver_all_same [OF assms(7)]
  have c: "ret_rpc_val c = counter w2" "last_rpc_val c = last_rpc_val p"
    "current_second c = current_second p" "packets_per_second c = packets_per_second p"
    "start_time a = start_time p"
    using fa fb fc by (simp_all add: logged_def)
  have w: "wait_unchanged ((logged ?rpc True b)\<lparr>ret_rpc_val := counter w2\<rparr>) (w3 # ws)
         = Some (Inr ((logged ?rpc True b)\<lparr>ret_rpc_val := counter w2\<rparr>, w3 # ws))"
    using assms(6) fa fb by (intro wait_unchanged_progress) (simp add: logged_def)
  show ?thesis
    using assms c w
    by (subst telemetry_loop.simps)
       (simp add: ext_Cons record_progress_closed void_def logged_def)
qed

subsection \<open>Snapshots that are not read do not matter\<close>

text \<open>
  A call reads the first snapshot of the script, the wait one snapshot per sleep; what
  follows the snapshots read can be replaced by anything.  A pass of the loop reads a
  non-empty part of the script and hands the rest to the next pass.
\<close>

lemma telemetry_loop_Nil: "\<not> force_quit p \<Longrightarrow> telemetry_loop p [] = None"
  by (simp add: telemetry_loop.simps ext_def)

lemma ext_frame:
  assumes "ext c st p ws = Inr (w, q, ws')"
  shows "ws = w # ws'" "ext c st p (w # xs) = Inr (w, q, xs)" "start_time q = start_time p"
    "force_quit q \<or> \<not> force_quit p"
proof -
  from assms obtain a where ws: "ws = w # ws'" and d: "deliver_all (sigs w) p = Inr a"
    and q: "q = logged c (if st then ok w else True) a"
    by (auto simp: ext_def split: list.splits sum.splits)
  show "ws = w # ws'" by (rule ws)
  show "ext c st p (w # xs) = Inr (w, q, xs)" using d q by (simp add: ext_Cons)
  show "start_time q = start_time p" using deliver_all_same(6) [OF d] q by (simp add: logged_def)
  from extends_deliver_all [OF d] show "force_quit q \<or> \<not> force_quit p"
    using q by (auto simp: extends_def logged_def)
qed

lemma wait_unchanged_skip:
  "force_quit p \<or> last_rpc_val p \<noteq> ret_rpc_val p \<Longrightarrow> wait_unchanged p xs = Some (Inr (p, xs))"
  by (cases xs) auto

lemma wait_unchanged_frame:
  "wait_unchanged p ws = Some (Inr (q, ws')) \<Longrightarrow>
     \<exists>used. ws = used @ ws' \<and> (\<forall>xs. wait_unchanged p (used @ xs) = Some (Inr (q, xs))) \<and>
            start_time q = start_time p"
proof (induction p ws rule: wait_unchanged.induct)
  case (1 p)
  then have c: "\<not> (\<not> force_quit p \<and> last_rpc_val p = ret_rpc_val p)" and q: "q = p" "ws' = []"
    by (simp_all split: if_splits)
  from c have "wait_unchanged p xs = Some (Inr (p, xs))" for xs
    by (intro wait_unchanged_skip) blast
  with q show ?case by simp
next
  case (2 p w ws)
  show ?case
  proof (cases "\<not> force_quit p \<and> last_rpc_val p = ret_rpc_val p")
    case False
    then have "wait_unchanged p xs = Some (Inr (p, xs))" for xs
      by (intro wait_unchanged_skip) blast
    moreover from False "2.prems" have "q = p" "ws' = w # ws" by auto
    ultimately show ?thesis by simp
  next
    case True
    with "2.prems" obtain a where d: "deliver_all (sigs w) p = Inr a"
      and r: "wait_unchanged (logged sleep True a) ws = Some (Inr (q, ws'))"
      by (auto split: sum.splits)
    from "2.IH" [OF True d r] obtain used where u: "ws = used @ ws'"
      "\<forall>xs. wait_unchanged (logged sleep True a) (used @ xs) = Some (Inr (q, xs))"
      "start_time q = start_time (logged sleep True a)"
      by blast
    have "w # ws = (w # used) @ ws'" using u(1) by simp
    moreover have "\<forall>xs. wait_unchanged p ((w # used) @ xs) = Some (Inr (q, xs))"
      using True d u(2) by simp
    moreover have "start_time q = start_time p"
      using u(3) deliver_all_same(6) [OF d] by (simp add: logged_def)
    ultimately show ?thesis by blast
  qed
qed

lemma record_progress_start_time: "record_progress sec p = Some q \<Longrightarrow> start_time q = start_time p"
  by (auto simp: record_progress_closed split: if_splits)

lemma loop_step:
  assumes r: "telemetry_loop p ws = Some out" and nq: "\<not> force_quit p"
  obtains (window) w rest a where "ws = w # rest" "deliver_all (sigs w) p = Inr a"
      "SIMULATION_TIME \<le> clock w - start_time p"
      "out = finish ((logged time True a)\<lparr>head_time := clock w\<rparr>)"
      "\<And>xs. telemetry_loop p (w # xs) = Some out"
    | (failed) q where "out = Exit EXIT_FAILURE q"
    | (killed) s q where "out = Killed s q"
    | (fault) q where "out = Fault q"
    | (pass) used rest p5 where "ws = used @ rest" "used \<noteq> []"
      "telemetry_loop p5 rest = Some out"
      "\<And>xs. telemetry_loop p (used @ xs) = telemetry_loop p5 xs"
      "start_time p5 = start_time p"
proof -
  let ?rpc = "flexio_process_call get_processed_packets_num"
  note r' = r [unfolded telemetry_loop.simps [of p ws]]
  have k: thesis if "ext c st p' ws' = Inl (Some out)" for c st p' ws'
  proof -
    from ext_Inl [OF that] obtain s q where "out = Killed s q" by blast
    then show thesis by (rule killed)
  qed
  show thesis
  proof (cases "ext time False p ws")
    case (Inl x)
    with nq r' have "ext time False p ws = Inl (Some out)" by simp
    then show ?thesis by (rule k)
  next
    case (Inr t)
    from Inr obtain w1 p0 ws1 where e1: "ext time False p ws = Inr (w1, p0, ws1)"
      by (cases t) auto
    note f1 = ext_frame [OF e1]
    from e1 obtain a where d1: "deliver_all (sigs w1) p = Inr a" and p0: "p0 = logged time True a"
      by (auto simp: ext_def split: list.splits sum.splits)
    define p1 where "p1 = p0\<lparr>head_time := clock w1\<rparr>"
    have st1: "start_time p1 = start_time p" using f1(3) by (simp add: p1_def)
    show ?thesis
    proof (cases "clock w1 - start_time p < SIMULATION_TIME")
      case False
      with nq e1 r' st1 have o: "out = finish p1"
        by (simp add: p1_def)
      have "telemetry_loop p (w1 # xs) = Some (finish p1)" for xs
        using nq f1(2) [of xs] False st1 by (subst telemetry_loop.simps) (simp add: p1_def)
      then have "\<And>xs. telemetry_loop p (w1 # xs) = Some out" using o by simp
      moreover from False have "SIMULATION_TIME \<le> clock w1 - start_time p" by simp
      moreover from o have "out = finish ((logged time True a)\<lparr>head_time := clock w1\<rparr>)"
        by (simp add: p1_def p0)
      ultimately show ?thesis using f1(1) d1 by (intro window [of w1 ws1 a])
    next
      case inwin: True
      show ?thesis
      proof (cases "ext ?rpc True p1 ws1")
        case (Inl x)
        with nq e1 inwin r' st1 have "ext ?rpc True p1 ws1 = Inl (Some out)"
          by (simp add: p1_def)
        then show ?thesis by (rule k)
      next
        case (Inr t2)
        then obtain w2 p2 ws2 where e2: "ext ?rpc True p1 ws1 = Inr (w2, p2, ws2)"
          by (cases t2) auto
        note f2 = ext_frame [OF e2]
        show ?thesis
        proof (cases "ok w2")
          case False
          with nq e1 inwin e2 r' st1 have "out = rule_cleanup p2"
            by (simp add: p1_def)
          then show ?thesis by (intro failed) (simp add: cleanup_defs)
        next
          case okr: True
          define p2' where "p2' = p2\<lparr>ret_rpc_val := counter w2\<rparr>"
          have st2: "start_time p2' = start_time p" using f2(3) st1 by (simp add: p2'_def)
          show ?thesis
          proof (cases "wait_unchanged p2' ws2")
            case None
            with nq e1 inwin e2 okr r' st1 show ?thesis
              by (simp add: p1_def p2'_def)
          next
            case (Some x)
            show ?thesis
            proof (cases x)
              case (Inl k')
              with Some nq e1 inwin e2 okr r' st1 have "k' = out"
                by (simp add: p1_def p2'_def)
              with Some Inl have "wait_unchanged p2' ws2 = Some (Inl out)" by simp
              from wait_unchanged_Inl [OF this] obtain s q where "out = Killed s q" by blast
              then show ?thesis by (rule killed)
            next
              case (Inr t3)
              then obtain p3 ws3 where e3: "wait_unchanged p2' ws2 = Some (Inr (p3, ws3))"
                using Some by (cases t3) auto
              from wait_unchanged_frame [OF e3] obtain used where
                u: "ws2 = used @ ws3"
                  "\<And>xs. wait_unchanged p2' (used @ xs) = Some (Inr (p3, xs))"
                  "start_time p3 = start_time p2'"
                by blast
              show ?thesis
              proof (cases "ext time False p3 ws3")
                case (Inl x4)
                with nq e1 inwin e2 okr e3 r' st1 have "ext time False p3 ws3 = Inl (Some out)"
                  by (simp add: p1_def p2'_def)
                then show ?thesis by (rule k)
              next
                case (Inr t4)
                then obtain w4 p4 ws4 where e4: "ext time False p3 ws3 = Inr (w4, p4, ws4)"
                  by (cases t4) auto
                note f4 = ext_frame [OF e4]
                show ?thesis
                proof (cases "record_progress (tm_sec w4) (void localtime p4)")
                  case None
                  with nq e1 inwin e2 okr e3 e4 r' st1 have "out = Fault (void localtime p4)"
                    by (simp add: p1_def p2'_def)
                  then show ?thesis by (rule fault)
                next
                  case (Some p5)
                  with nq e1 inwin e2 okr e3 e4 r' st1 have tl: "telemetry_loop p5 ws4 = Some out"
                    by (simp add: p1_def p2'_def)
                  have ws: "ws = (w1 # w2 # used @ [w4]) @ ws4"
                    using f1(1) f2(1) u(1) f4(1) by simp
                  have fr: "telemetry_loop p ((w1 # w2 # used @ [w4]) @ xs) = telemetry_loop p5 xs"
                    for xs
                    using nq f1(2) [of "w2 # used @ w4 # xs"] inwin st1
                      f2(2) [of "used @ w4 # xs"] okr u(2) [of "w4 # xs"] f4(2) [of xs] Some
                    by (subst telemetry_loop.simps) (simp add: p1_def p2'_def)
                  have "start_time p5 = start_time p"
                    using record_progress_start_time [OF Some] f4(3) u(3) st2
                    by (simp add: void_def logged_def)
                  with ws tl fr show ?thesis by (intro pass [of "w1 # w2 # used @ [w4]" ws4 p5]) simp_all
                qed
              qed
            qed
          qed
        qed
      qed
    qed
  qed
qed

subsection \<open>Leaving the loop because the window has elapsed\<close>

text \<open>
  A run that returns \<^verbatim>\<open>EXIT_SUCCESS\<close> with \<^verbatim>\<open>force_quit\<close> unset has read, as its last
  snapshot, a \<^verbatim>\<open>time(NULL)\<close> at least 60 seconds after \<^verbatim>\<open>start_time\<close>; on the script
  without that snapshot the run is not over.
\<close>

lemma finish_Exit:
  "finish p = Exit c q \<Longrightarrow> c = EXIT_SUCCESS \<and> force_quit q = force_quit p \<and> start_time q = start_time p"
  by (auto simp: finish_def void_def logged_def)

lemma window_exit:
  "telemetry_loop p ws = Some (Exit EXIT_SUCCESS q) \<Longrightarrow> \<not> force_quit q \<Longrightarrow>
     \<exists>pre w rest. ws = pre @ w # rest \<and> telemetry_loop p pre = None \<and>
        telemetry_loop p (pre @ [w]) = Some (Exit EXIT_SUCCESS q) \<and>
        SIMULATION_TIME \<le> clock w - start_time p \<and> start_time q = start_time p"
proof (induction ws arbitrary: p rule: length_induct)
  case (1 ws)
  have nq: "\<not> force_quit p"
  proof
    assume "force_quit p"
    then have "telemetry_loop p ws = Some (finish p)" by (rule telemetry_loop_cancelled)
    with "1.prems"(1) have "finish p = Exit EXIT_SUCCESS q" by simp
    from finish_Exit [OF this] \<open>force_quit p\<close> "1.prems"(2) show False by simp
  qed
  from "1.prems"(1) nq show ?case
  proof (cases rule: loop_step)
    case (window w rest a)
    from finish_Exit [OF window(4) [symmetric]] deliver_all_same(6) [OF window(2)]
    have "start_time q = start_time p" by (simp add: logged_def)
    moreover have "telemetry_loop p [] = None" using nq by (rule telemetry_loop_Nil)
    moreover have "ws = [] @ w # rest" using window(1) by simp
    moreover have "telemetry_loop p ([] @ [w]) = Some (Exit EXIT_SUCCESS q)"
      using window(5) by simp
    ultimately show ?thesis using window(3) by blast
  next
    case (failed q')
    then show ?thesis by (simp add: EXIT_SUCCESS_def EXIT_FAILURE_def)
  next
    case (killed s q')
    then show ?thesis by simp
  next
    case (fault q')
    then show ?thesis by simp
  next
    case (pass used rest p5)
    have "length rest < length ws" using pass(1,2) by (cases used) simp_all
    with "1.IH" pass(3) "1.prems"(2)
    obtain pre w rest' where i: "rest = pre @ w # rest'" "telemetry_loop p5 pre = None"
      "telemetry_loop p5 (pre @ [w]) = Some (Exit EXIT_SUCCESS q)"
      "SIMULATION_TIME \<le> clock w - start_time p5" "start_time q = start_time p5"
      by blast
    have "ws = (used @ pre) @ w # rest' \<and> telemetry_loop p (used @ pre) = None \<and>
        telemetry_loop p ((used @ pre) @ [w]) = Some (Exit EXIT_SUCCESS q) \<and>
        SIMULATION_TIME \<le> clock w - start_time p \<and> start_time q = start_time p"
      using pass(1,4,5) i by simp
    then show ?thesis by blast
  qed
qed

subsection \<open>From the start of main to the loop\<close>

lemma main_setup_quiet:
  assumes "length pre = 13" "list_all (\<lambda>w. sigs w = [] \<and> ok w) pre"
  shows "main (pre @ xs) = observe launched xs"
  using assms
  apply (auto simp: length_Suc_conv numeral_eq_Suc)
  apply (simp add: main_def acquire_def ext_unhandled logged_def launched_def)
  done

lemma main_success_setup:
  assumes "main ws = Some (Exit EXIT_SUCCESS p)"
  shows "13 \<le> length ws \<and> list_all (\<lambda>w. sigs w = [] \<and> ok w) (take 13 ws)"
  using assms
  by (simp add: main_unfold split: list.splits if_splits)
     (auto simp: cleanup_defs EXIT_SUCCESS_def EXIT_FAILURE_def)

lemma early_failure_exits:
  assumes "length pre < 13" "list_all (\<lambda>w. sigs w = [] \<and> ok w) pre" "sigs w = []" "\<not> ok w"
  shows "main (pre @ w # rest) =
           Some (Exit EXIT_FAILURE (initial\<lparr>trace := failures [] setup_steps ! length pre\<rparr>))"
proof -
  from assms(1) have "length pre = 0 \<or> length pre = 1 \<or> length pre = 2 \<or> length pre = 3
      \<or> length pre = 4 \<or> length pre = 5 \<or> length pre = 6 \<or> length pre = 7
      \<or> length pre = 8 \<or> length pre = 9 \<or> length pre = 10 \<or> length pre = 11
      \<or> length pre = 12"
    by arith
  then show ?thesis
    using assms(2,3,4)
    apply (elim disjE)
    apply (auto simp: length_Suc_conv numeral_eq_Suc)
    apply (simp_all add: main_def acquire_def ext_unhandled cleanup_defs setup_steps_def)
    done
qed

lemma observe_frame:
  assumes "observe p ws = Some (Exit c q)"
  obtains w0 ws' e where "ws = w0 # ws'" "start_time e = clock w0"
    "telemetry_loop e ws' = Some (Exit c q)"
    "\<And>xs. observe p (w0 # xs) = telemetry_loop e xs"
proof -
  define p2 where "p2 = void (signal SIGTERM)
             ((void (signal SIGINT) (p\<lparr>handlers := SIGINT # handlers p\<rparr>))
                \<lparr>handlers := SIGTERM # handlers (void (signal SIGINT) (p\<lparr>handlers := SIGINT # handlers p\<rparr>))\<rparr>)"
  have o: "observe p xs = (case ext time False p2 xs of Inl r \<Rightarrow> r
         | Inr (w, p3, ws') \<Rightarrow> telemetry_loop (void localtime (p3\<lparr>start_time := clock w\<rparr>)) ws')"
    for xs
    by (simp add: observe_def Let_def p2_def)
  show thesis
  proof (cases "ext time False p2 ws")
    case (Inl r)
    with assms o have "ext time False p2 ws = Inl (Some (Exit c q))" by simp
    from ext_Inl [OF this] show ?thesis by blast
  next
    case (Inr t)
    then obtain w0 p3 ws' where e: "ext time False p2 ws = Inr (w0, p3, ws')"
      by (cases t) auto
    note f = ext_frame [OF e]
    define e0 where "e0 = void localtime (p3\<lparr>start_time := clock w0\<rparr>)"
    have "telemetry_loop e0 ws' = Some (Exit c q)" using assms o [of ws] e by (simp add: e0_def)
    moreover have "observe p (w0 # xs) = telemetry_loop e0 xs" for xs
      using o [of "w0 # xs"] f(2) [of xs] by (simp add: e0_def)
    moreover have "start_time e0 = clock w0" by (simp add: e0_def void_def logged_def)
    ultimately show ?thesis using f(1) by (intro that [of w0 ws' e0])
  qed
qed

lemma main_window_exit:
  assumes m: "main ws = Some (Exit EXIT_SUCCESS p)" and nq: "\<not> force_quit p"
  shows "\<exists>pre w rest. ws = pre @ w # rest \<and> 13 < length pre \<and> main pre = None \<and>
           main (pre @ [w]) = Some (Exit EXIT_SUCCESS p) \<and>
           start_time p = clock (ws ! 13) \<and> SIMULATION_TIME \<le> clock w - start_time p"
proof -
  define s13 where "s13 = take 13 ws"
  from main_success_setup [OF m] have l: "length s13 = 13"
    and q: "list_all (\<lambda>w. sigs w = [] \<and> ok w) s13"
    by (simp_all add: s13_def)
  have ws: "ws = s13 @ drop 13 ws" by (simp add: s13_def)
  note ms = main_setup_quiet [OF l q]
  from m ws ms [of "drop 13 ws"] have "observe launched (drop 13 ws) = Some (Exit EXIT_SUCCESS p)"
    by simp
  then obtain w0 ws' e where o: "drop 13 ws = w0 # ws'" "start_time e = clock w0"
    "telemetry_loop e ws' = Some (Exit EXIT_SUCCESS p)"
    "\<And>xs. observe launched (w0 # xs) = telemetry_loop e xs"
    by (rule observe_frame) (rule that)
  from window_exit [OF o(3) nq] obtain pre w rest where
    i: "ws' = pre @ w # rest" "telemetry_loop e pre = None"
      "telemetry_loop e (pre @ [w]) = Some (Exit EXIT_SUCCESS p)"
      "SIMULATION_TIME \<le> clock w - start_time e" "start_time p = start_time e"
    by blast
  have w13: "ws ! 13 = w0"
    using ws o(1) l by (metis nth_append_length)
  have "ws = (s13 @ w0 # pre) @ w # rest" using ws o(1) i(1) by simp
  moreover have "13 < length (s13 @ w0 # pre)" using l by simp
  moreover have "main (s13 @ w0 # pre) = None" using ms [of "w0 # pre"] o(4) i(2) by simp
  moreover have "main ((s13 @ w0 # pre) @ [w]) = Some (Exit EXIT_SUCCESS p)"
    using ms [of "w0 # pre @ [w]"] o(4) i(3) by simp
  moreover have "start_time p = clock (ws ! 13)" using i(5) o(2) w13 by simp
  moreover have "SIMULATION_TIME \<le> clock w - start_time p" using i(4,5) by simp
  ultimately show ?thesis by blast
qed

subsection \<open>Runs that end at once\<close>

lemma read_failure_exits:
  assumes "\<not> force_quit p" "deliver_all (sigs w1) p = Inr a"
    and "clock w1 - start_time p < SIMULATION_TIME"
    and "deliver_all (sigs w2) ((logged time True a)\<lparr>head_time := clock w1\<rparr>) = Inr b"
    and "\<not> ok w2"
  shows "telemetry_loop p (w1 # w2 # rest) =
         Some (Exit EXIT_FAILURE
           (b\<lparr>trace := trace b @ Call (flexio_process_call get_processed_packets_num) False
               # map (\<lambda>c. Call c True)
                   [l2_reflector_steering_rules_destroy, l2_reflector_device_resources_destroy,
                    l2_reflector_device_destroy, l2_reflector_ibv_device_destroy,
                    doca_argp_destroy]\<rparr>))"
  using assms deliver_all_same(6) [OF assms(2)]
  by (subst telemetry_loop.simps) (simp add: ext_Cons cleanup_defs)

lemma window_elapsed_exits:
  assumes "\<not> force_quit p" "deliver_all (sigs w1) p = Inr a"
    and "SIMULATION_TIME \<le> clock w1 - start_time p"
  shows "telemetry_loop p (w1 # rest) =
         Some (finish ((logged time True a)\<lparr>head_time := clock w1\<rparr>))"
  using assms deliver_all_same(6) [OF assms(2)]
  by (subst telemetry_loop.simps) (simp add: ext_Cons logged_def)

lemma early_kills_no_failure:
  "\<forall>tr\<in>set (kills [] setup_steps). \<forall>call. Call call False \<notin> set tr"
  by (simp add: setup_steps_def)

lemma ends_outcome:
  assumes "ends (install launched) out"
  shows "(\<exists>p. out = Exit EXIT_FAILURE p) \<longleftrightarrow> (\<exists>call. Call call False \<in> set (trace (proc_of out)))"
    and "(\<exists>p. out = Exit EXIT_SUCCESS p) \<longleftrightarrow> printed (proc_of out) \<noteq> None"
    and "(\<exists>p. out = Exit EXIT_SUCCESS p) \<or>
         Call (flexio_process_call get_processed_packets_num) False \<in> set (trace (proc_of out)) \<or>
         (\<exists>q. out = Fault q) \<or> (\<exists>s q. out = Killed s q \<and> s \<noteq> SIGINT \<and> s \<noteq> SIGTERM)"
    and "(\<exists>c p. out = Exit c p) \<longrightarrow> (force_quit (proc_of out) \<longleftrightarrow> cancelling (trace (proc_of out)))"
proof -
  from assms obtain mid q where x: "extends (install launched) mid q"
    and o: "out = finish q
         \<or> out = rule_cleanup (logged (flexio_process_call get_processed_packets_num) False q)
         \<or> (\<exists>s. out = Killed s q \<and> s \<notin> set (handlers q)) \<or> out = Fault q"
    by (auto simp: ends_def)
  from x have tr: "trace q = trace (install launched) @ mid" and pm: "list_all polling mid"
    and pr: "printed q = None" and h: "handlers q = [SIGTERM, SIGINT]"
    and fq: "force_quit q \<longleftrightarrow> cancelling mid"
    by (simp_all add: extends_def)
  note nf = polling_not_failed [OF pm]
  from o tr pr nf
  show "(\<exists>p. out = Exit EXIT_FAILURE p) \<longleftrightarrow> (\<exists>call. Call call False \<in> set (trace (proc_of out)))"
    by (auto simp: finish_def cleanup_defs trace_install_launched EXIT_SUCCESS_def EXIT_FAILURE_def)
  from o pr
  show "(\<exists>p. out = Exit EXIT_SUCCESS p) \<longleftrightarrow> printed (proc_of out) \<noteq> None"
    by (auto simp: finish_def cleanup_defs EXIT_SUCCESS_def EXIT_FAILURE_def)
  from o h
  show "(\<exists>p. out = Exit EXIT_SUCCESS p) \<or>
         Call (flexio_process_call get_processed_packets_num) False \<in> set (trace (proc_of out)) \<or>
         (\<exists>q. out = Fault q) \<or> (\<exists>s q. out = Killed s q \<and> s \<noteq> SIGINT \<and> s \<noteq> SIGTERM)"
    by (auto simp: finish_def cleanup_defs)
  from o tr fq
  show "(\<exists>c p. out = Exit c p) \<longrightarrow> (force_quit (proc_of out) \<longleftrightarrow> cancelling (trace (proc_of out)))"
    by (auto simp: finish_def cleanup_defs trace_install_launched cancelling_def)
qed

section \<open>The claims\<close>

text \<open>
  C1, as claimed: in every run that returns from \<^verbatim>\<open>main\<close>, the domains released are the
  domains whose acquisition succeeded, in reverse order.  It fails when the RX steering
  rule is installed and the TX rule is not: stage 4 has not succeeded, yet line 156 jumps
  to \<^verbatim>\<open>rule_cleanup\<close> and the steering rules are released with the other three domains.
\<close>

theorem tx_failure_releases_steering_rules:
  "exit_status tx_fails = Some EXIT_FAILURE \<and>
   map_option (released (rev domains)) (final_trace tx_fails)
     = Some [SteeringRules, DeviceResources, DeviceRuntime, NetworkBinding] \<and>
   map_option (rev \<circ> acquired_domains) (final_trace tx_fails)
     = Some [DeviceResources, DeviceRuntime, NetworkBinding]"
  by (simp add: exit_status_def final_trace_def tx_fails_def numeral_eq_Suc quiet_def
      failing_def main_unfold cleanup_defs acquired_domains_def domains_def)

text \<open>
  C1, amended: in every run that returns from \<^verbatim>\<open>main\<close>, the domains released are the
  domains of which something is held (a domain whose stage succeeded, and the steering
  rules once the RX rule is installed), in the reverse of the acquisition order; the held
  domains are a prefix of the order; and they are the acquired ones unless the TX rule has
  failed.  On a path that returns \<^verbatim>\<open>EXIT_FAILURE\<close> this holds whatever
  \<^verbatim>\<open>l2_reflector_destroy\<close> releases (\<open>d\<close>).  On the successful path all four domains
  are held and the release is the one call of \<^verbatim>\<open>l2_reflector_destroy\<close>, taken in the first
  conjunct to release them in reverse order, as the specification has it.  When stage 3
  fails after stages 1 and 2, exactly \<open>DeviceRuntime\<close> and then \<open>NetworkBinding\<close> are
  released.
\<close>

theorem teardown_reverses_what_is_held:
  assumes "main ws = Some (Exit c p)"
  shows "released (rev domains) (trace p) = rev (held_domains (trace p)) \<and>
         (c = EXIT_FAILURE \<longrightarrow> released d (trace p) = rev (held_domains (trace p))) \<and>
         (c = EXIT_SUCCESS \<longrightarrow> released d (trace p) = d \<and> held_domains (trace p) = domains) \<and>
         held_domains (trace p) = take (length (held_domains (trace p))) domains \<and>
         (held_domains (trace p) = acquired_domains (trace p) \<or>
          held_domains (trace p) = domains \<and>
          Call l2_reflector_create_steering_rule_tx False \<in> set (trace p))"
  using assms
proof (cases rule: main_Exit_cases)
  case telemetry
  from ends_released [OF this, of d] ends_released [OF this, of "rev domains"]
  show ?thesis
    by (auto simp: domains_def EXIT_SUCCESS_def EXIT_FAILURE_def)
next
  case early
  from early(3) early_released [of d] early_released [of "rev domains"]
  have "released d (trace p) = rev (held_domains (trace p))"
    "released (rev domains) (trace p) = rev (held_domains (trace p))"
    "held_domains (trace p) = take (length (held_domains (trace p))) domains"
    "held_domains (trace p) = acquired_domains (trace p) \<or>
          held_domains (trace p) = domains \<and>
          Call l2_reflector_create_steering_rule_tx False \<in> set (trace p)"
    by blast+
  with early(2) show ?thesis
    by (simp add: EXIT_SUCCESS_def EXIT_FAILURE_def)
qed

theorem teardown_reverses_what_is_held_witness:
  "\<exists>p. main stage3_fails = Some (Exit EXIT_FAILURE p) \<and>
       acquired_domains (trace p) = [NetworkBinding, DeviceRuntime] \<and>
       held_domains (trace p) = [NetworkBinding, DeviceRuntime] \<and>
       released [] (trace p) = [DeviceRuntime, NetworkBinding]"
proof -
  have "\<exists>p. main stage3_fails = Some (Exit EXIT_FAILURE p) \<and>
       acquired_domains (trace p) = [NetworkBinding, DeviceRuntime] \<and>
       held_domains (trace p) = [NetworkBinding, DeviceRuntime]"
    by (simp add: stage3_fails_def numeral_eq_Suc quiet_def failing_def main_unfold
        cleanup_defs acquired_domains_def held_domains_def domains_def)
  then obtain p where h: "main stage3_fails = Some (Exit EXIT_FAILURE p)"
    and a: "acquired_domains (trace p) = [NetworkBinding, DeviceRuntime]"
      "held_domains (trace p) = [NetworkBinding, DeviceRuntime]"
    by blast
  from teardown_reverses_what_is_held [OF h, of "[]"] a
  have "released [] (trace p) = [DeviceRuntime, NetworkBinding]" by simp
  with h a show ?thesis by blast
qed

text \<open>
  C2, as claimed: the process returns 0 exactly when a full run through the window
  completes or cancellation is requested after full acquisition.  It does not when the
  counter read fails after the request: in the run \<open>cancelled_then_read_fails\<close> all four
  domains are acquired, the device is launched, the handler runs for SIGINT and sets
  \<^verbatim>\<open>force_quit\<close>, the read of line 179 fails, line 183 jumps to \<^verbatim>\<open>rule_cleanup\<close> and
  \<^verbatim>\<open>main\<close> returns \<^verbatim>\<open>EXIT_FAILURE\<close>.
\<close>

theorem cancelled_run_exits_with_failure:
  "exit_status cancelled_then_read_fails = Some EXIT_FAILURE \<and>
   final_trace cancelled_then_read_fails =
     Some (trace (install launched)
           @ [Call time True, Call localtime True, Handler SIGINT, Call time True,
              Call (flexio_process_call get_processed_packets_num) False,
              Call l2_reflector_steering_rules_destroy True,
              Call l2_reflector_device_resources_destroy True,
              Call l2_reflector_device_destroy True,
              Call l2_reflector_ibv_device_destroy True,
              Call doca_argp_destroy True]) \<and>
   map_option (force_quit \<circ> proc_of) (main cancelled_then_read_fails) = Some True \<and>
   map_option acquired_domains (final_trace cancelled_then_read_fails) = Some domains"
  unfolding exit_status_def final_trace_def cancelled_then_read_fails_def main_startup
  by (simp add: observe_quiet run_simps ext_def deliver_def signal_handler_def failing_def
      quiet_def cleanup_defs acquired_domains_def domains_def)

text \<open>
  C2, amended.  \<^verbatim>\<open>EXIT_SUCCESS\<close> is 0 and \<^verbatim>\<open>EXIT_FAILURE\<close> is not.  In every run that ends:
  the process returns \<^verbatim>\<open>EXIT_FAILURE\<close> exactly when some call reported a failure, and
  returns \<^verbatim>\<open>EXIT_SUCCESS\<close> exactly when the report has been logged; once the handler has
  run for SIGINT or SIGTERM the run returns \<^verbatim>\<open>EXIT_SUCCESS\<close> unless a counter read
  fails, the bucket write is out of bounds or another signal kills the process.  A return
  is with one of the two codes, and \<^verbatim>\<open>force_quit\<close> is set exactly when the handler has
  run.  A return of \<^verbatim>\<open>EXIT_SUCCESS\<close> comes after the thirteen setup calls and the two
  calls of \<^verbatim>\<open>signal\<close>, with all four domains acquired, and either \<^verbatim>\<open>force_quit\<close> is
  set or the last snapshot the run has read is a \<^verbatim>\<open>time(NULL)\<close> at least 60 seconds after
  \<^verbatim>\<open>start_time\<close>, which is the clock of the fourteenth snapshot: on the script without
  that last snapshot the run is not over.

  The failures are not only reflected, they end the run: when one of the thirteen setup
  calls fails, the earlier ones having succeeded, \<^verbatim>\<open>main\<close> returns \<^verbatim>\<open>EXIT_FAILURE\<close> after
  the cleanup calls of that stage; from any state of the loop with \<^verbatim>\<open>force_quit\<close> unset, a
  \<^verbatim>\<open>time(NULL)\<close> at least 60 seconds after \<^verbatim>\<open>start_time\<close> makes it return
  \<^verbatim>\<open>EXIT_SUCCESS\<close>, and an earlier one followed by a failing counter read makes it return
  \<^verbatim>\<open>EXIT_FAILURE\<close>, whatever handled signals arrive meanwhile; with \<^verbatim>\<open>force_quit\<close> set at
  the head of the loop it returns \<^verbatim>\<open>EXIT_SUCCESS\<close> at once, after the report and
  \<^verbatim>\<open>l2_reflector_destroy\<close>.
\<close>

theorem exit_code_reflects_failure:
  "EXIT_SUCCESS = 0 \<and> EXIT_FAILURE \<noteq> 0 \<and>
   (main ws = Some out \<longrightarrow>
      ((\<exists>q. out = Exit EXIT_FAILURE q) \<longleftrightarrow>
         (\<exists>call. Call call False \<in> set (trace (proc_of out)))) \<and>
      ((\<exists>q. out = Exit EXIT_SUCCESS q) \<longleftrightarrow> printed (proc_of out) \<noteq> None) \<and>
      (cancelling (trace (proc_of out)) \<longrightarrow>
         (\<exists>q. out = Exit EXIT_SUCCESS q) \<or>
         Call (flexio_process_call get_processed_packets_num) False \<in> set (trace (proc_of out)) \<or>
         (\<exists>q. out = Fault q) \<or> (\<exists>s q. out = Killed s q \<and> s \<noteq> SIGINT \<and> s \<noteq> SIGTERM))) \<and>
   (main ws = Some (Exit c p) \<longrightarrow>
      (c = EXIT_SUCCESS \<or> c = EXIT_FAILURE) \<and>
      (force_quit p \<longleftrightarrow> cancelling (trace p)) \<and>
      (c = EXIT_SUCCESS \<longrightarrow>
         take 15 (trace p) = trace (install launched) \<and>
         acquired_domains (trace p) = domains \<and>
         (force_quit p \<or>
          (\<exists>pre w rest. ws = pre @ w # rest \<and> 13 < length pre \<and> main pre = None \<and>
             main (pre @ [w]) = Some (Exit c p) \<and> start_time p = clock (ws ! 13) \<and>
             SIMULATION_TIME \<le> clock w - start_time p)))) \<and>
   (length pre < 13 \<longrightarrow> list_all (\<lambda>w. sigs w = [] \<and> ok w) pre \<longrightarrow> sigs w = [] \<longrightarrow> \<not> ok w \<longrightarrow>
      main (pre @ w # rest)
        = Some (Exit EXIT_FAILURE (initial\<lparr>trace := failures [] setup_steps ! length pre\<rparr>))) \<and>
   (\<not> force_quit st \<longrightarrow> deliver_all (sigs w1) st = Inr a \<longrightarrow>
      (SIMULATION_TIME \<le> clock w1 - start_time st \<longrightarrow>
         telemetry_loop st (w1 # ws1)
           = Some (Exit EXIT_SUCCESS
               (void l2_reflector_destroy
                  (a\<lparr>trace := trace a @ [Call time True], head_time := clock w1,
                     printed := Some (final_report a)\<rparr>)))) \<and>
      (clock w1 - start_time st < SIMULATION_TIME \<longrightarrow>
       deliver_all (sigs w2) ((logged time True a)\<lparr>head_time := clock w1\<rparr>) = Inr b \<longrightarrow>
       \<not> ok w2 \<longrightarrow>
         telemetry_loop st (w1 # w2 # ws2)
           = Some (Exit EXIT_FAILURE
               (b\<lparr>trace := trace b
                    @ Call (flexio_process_call get_processed_packets_num) False
                    # map (\<lambda>c. Call c True)
                        [l2_reflector_steering_rules_destroy,
                         l2_reflector_device_resources_destroy, l2_reflector_device_destroy,
                         l2_reflector_ibv_device_destroy, doca_argp_destroy]\<rparr>)))) \<and>
   (force_quit st \<longrightarrow>
      telemetry_loop st ws3
        = Some (Exit EXIT_SUCCESS
            (void l2_reflector_destroy (st\<lparr>printed := Some (final_report st)\<rparr>))))"
proof (intro conjI impI)
  show "EXIT_SUCCESS = 0" by (simp add: EXIT_SUCCESS_def)
  show "EXIT_FAILURE \<noteq> 0" by (simp add: EXIT_FAILURE_def)
next
  assume m: "main ws = Some out"
  from main_cases [OF m]
  consider (telemetry) "ends (install launched) out"
    | (early) "proc_of out = initial\<lparr>trace := trace (proc_of out)\<rparr>"
        "(\<exists>q. out = Exit EXIT_FAILURE q) \<and> trace (proc_of out) \<in> set (failures [] setup_steps)
         \<or> (\<exists>s q. out = Killed s q) \<and> trace (proc_of out) \<in> set (kills [] setup_steps)"
    using observe_ends by (cases out) auto
  note cases = this
  show "(\<exists>q. out = Exit EXIT_FAILURE q) \<longleftrightarrow> (\<exists>call. Call call False \<in> set (trace (proc_of out)))"
  proof (cases rule: cases)
    case telemetry
    then show ?thesis by (rule ends_outcome(1))
  next
    case early
    with early_exit_code early_kills_no_failure show ?thesis by blast
  qed
  show "(\<exists>q. out = Exit EXIT_SUCCESS q) \<longleftrightarrow> printed (proc_of out) \<noteq> None"
  proof (cases rule: cases)
    case telemetry
    then show ?thesis by (rule ends_outcome(2))
  next
    case early
    from early(2) have "\<not> (\<exists>q. out = Exit EXIT_SUCCESS q)"
      by (auto simp: EXIT_SUCCESS_def EXIT_FAILURE_def)
    with early_state(3) [OF early(1)] show ?thesis by simp
  qed
  show "(\<exists>q. out = Exit EXIT_SUCCESS q) \<or>
         Call (flexio_process_call get_processed_packets_num) False \<in> set (trace (proc_of out)) \<or>
         (\<exists>q. out = Fault q) \<or> (\<exists>s q. out = Killed s q \<and> s \<noteq> SIGINT \<and> s \<noteq> SIGTERM)"
    if "cancelling (trace (proc_of out))"
  proof (cases rule: cases)
    case telemetry
    then show ?thesis by (rule ends_outcome(3))
  next
    case early
    with that early_no_handler show ?thesis unfolding cancelling_def by blast
  qed
next
  assume m: "main ws = Some (Exit c p)"
  from m show "c = EXIT_SUCCESS \<or> c = EXIT_FAILURE"
  proof (cases rule: main_Exit_cases)
    case telemetry
    with ends_exit show ?thesis by blast
  next
    case early
    then show ?thesis by simp
  qed
  from m show "force_quit p \<longleftrightarrow> cancelling (trace p)"
  proof (cases rule: main_Exit_cases)
    case telemetry
    from ends_outcome(4) [OF this] show ?thesis by simp
  next
    case early
    with early_no_handler early_state(1) [OF early(1)] show ?thesis
      unfolding cancelling_def by blast
  qed
  assume c: "c = EXIT_SUCCESS"
  from m c have t: "ends (install launched) (Exit c p)"
    by (cases rule: main_Exit_cases) (simp_all add: EXIT_SUCCESS_def EXIT_FAILURE_def)
  from ends_prefix(1) [OF t] show "take 15 (trace p) = trace (install launched)" by simp
  from ends_released [OF t] show "acquired_domains (trace p) = domains" by simp
  show "force_quit p \<or>
          (\<exists>pre w rest. ws = pre @ w # rest \<and> 13 < length pre \<and> main pre = None \<and>
             main (pre @ [w]) = Some (Exit c p) \<and> start_time p = clock (ws ! 13) \<and>
             SIMULATION_TIME \<le> clock w - start_time p)"
    using main_window_exit [of ws p] m c by blast
next
  assume "length pre < 13" "list_all (\<lambda>w. sigs w = [] \<and> ok w) pre" "sigs w = []" "\<not> ok w"
  then show "main (pre @ w # rest)
        = Some (Exit EXIT_FAILURE (initial\<lparr>trace := failures [] setup_steps ! length pre\<rparr>))"
    by (rule early_failure_exits)
next
  assume l: "\<not> force_quit st" "deliver_all (sigs w1) st = Inr a"
  show "telemetry_loop st (w1 # ws1)
           = Some (Exit EXIT_SUCCESS
               (void l2_reflector_destroy
                  (a\<lparr>trace := trace a @ [Call time True], head_time := clock w1,
                     printed := Some (final_report a)\<rparr>)))"
    if "SIMULATION_TIME \<le> clock w1 - start_time st"
    using window_elapsed_exits [OF l that, of ws1]
    by (simp add: finish_def logged_def final_report_def void_def)
  show "telemetry_loop st (w1 # w2 # ws2)
           = Some (Exit EXIT_FAILURE
               (b\<lparr>trace := trace b
                    @ Call (flexio_process_call get_processed_packets_num) False
                    # map (\<lambda>c. Call c True)
                        [l2_reflector_steering_rules_destroy,
                         l2_reflector_device_resources_destroy, l2_reflector_device_destroy,
                         l2_reflector_ibv_device_destroy, doca_argp_destroy]\<rparr>))"
    if "clock w1 - start_time st < SIMULATION_TIME"
      "deliver_all (sigs w2) ((logged time True a)\<lparr>head_time := clock w1\<rparr>) = Inr b" "\<not> ok w2"
    using l that by (rule read_failure_exits)
next
  assume "force_quit st"
  then show "telemetry_loop st ws3
        = Some (Exit EXIT_SUCCESS
            (void l2_reflector_destroy (st\<lparr>printed := Some (final_report st)\<rparr>)))"
    by (simp add: telemetry_loop_cancelled finish_def)
qed

theorem exit_code_reflects_failure_witness:
  "(\<exists>q. main one_burst = Some (Exit EXIT_SUCCESS q) \<and> \<not> force_quit q \<and> \<not> cancelling (trace q) \<and>
        printed q \<noteq> None \<and> acquired_domains (trace q) = domains \<and>
        (\<exists>pre w rest. one_burst = pre @ w # rest \<and> 13 < length pre \<and> main pre = None \<and>
           main (pre @ [w]) = Some (Exit EXIT_SUCCESS q) \<and>
           SIMULATION_TIME \<le> clock w - start_time q)) \<and>
   (\<exists>q. main cancelled_once = Some (Exit EXIT_SUCCESS q) \<and> cancelling (trace q) \<and>
        force_quit q \<and> printed q \<noteq> None) \<and>
   (\<exists>q. main cancelled_then_read_fails = Some (Exit EXIT_FAILURE q) \<and> cancelling (trace q) \<and>
        force_quit q \<and> printed q = None \<and> (\<exists>call. Call call False \<in> set (trace q))) \<and>
   main stage3_fails
     = Some (Exit EXIT_FAILURE (initial\<lparr>trace := failures [] setup_steps ! 8\<rparr>)) \<and>
   (\<exists>q. telemetry_loop (install launched) [tick 60 0] = Some (Exit EXIT_SUCCESS q)) \<and>
   (\<exists>q. telemetry_loop (install launched) [(tick 0 0)\<lparr>sigs := [SIGINT]\<rparr>, failing]
          = Some (Exit EXIT_FAILURE q) \<and> force_quit q) \<and>
   (\<exists>q. telemetry_loop ((install launched)\<lparr>force_quit := True\<rparr>) []
          = Some (Exit EXIT_SUCCESS q))"
proof (intro conjI)
  have "\<exists>q. main one_burst = Some (Exit EXIT_SUCCESS q) \<and> \<not> force_quit q"
    unfolding one_burst_def main_startup
    by (simp add: observe_quiet run_simps wait_unchanged_progress)
  then obtain q where h: "main one_burst = Some (Exit EXIT_SUCCESS q)" "\<not> force_quit q"
    by blast
  from exit_code_reflects_failure [where ws = one_burst and out = "Exit EXIT_SUCCESS q", THEN conjunct2, THEN conjunct2, THEN conjunct1]
    exit_code_reflects_failure [where ws = one_burst and c = EXIT_SUCCESS and p = q, THEN conjunct2, THEN conjunct2, THEN conjunct2, THEN conjunct1] h
  show "\<exists>q. main one_burst = Some (Exit EXIT_SUCCESS q) \<and> \<not> force_quit q \<and> \<not> cancelling (trace q) \<and>
        printed q \<noteq> None \<and> acquired_domains (trace q) = domains \<and>
        (\<exists>pre w rest. one_burst = pre @ w # rest \<and> 13 < length pre \<and> main pre = None \<and>
           main (pre @ [w]) = Some (Exit EXIT_SUCCESS q) \<and>
           SIMULATION_TIME \<le> clock w - start_time q)"
    by auto
next
  have "\<exists>q. main cancelled_once = Some (Exit EXIT_SUCCESS q) \<and> cancelling (trace q)"
    unfolding cancelled_once_def main_startup
    by (simp add: observe_quiet run_simps ext_def deliver_def signal_handler_def cancelling_def)
  then obtain q where h: "main cancelled_once = Some (Exit EXIT_SUCCESS q)" "cancelling (trace q)"
    by blast
  from exit_code_reflects_failure [where ws = cancelled_once and out = "Exit EXIT_SUCCESS q", THEN conjunct2, THEN conjunct2, THEN conjunct1]
    exit_code_reflects_failure [where ws = cancelled_once and c = EXIT_SUCCESS and p = q, THEN conjunct2, THEN conjunct2, THEN conjunct2, THEN conjunct1] h
  show "\<exists>q. main cancelled_once = Some (Exit EXIT_SUCCESS q) \<and> cancelling (trace q) \<and>
        force_quit q \<and> printed q \<noteq> None"
    by auto
next
  have "\<exists>q. main cancelled_then_read_fails = Some (Exit EXIT_FAILURE q) \<and> cancelling (trace q)"
    unfolding cancelled_then_read_fails_def main_startup
    by (simp add: observe_quiet run_simps ext_def deliver_def signal_handler_def failing_def
        quiet_def cleanup_defs cancelling_def)
  then obtain q where h: "main cancelled_then_read_fails = Some (Exit EXIT_FAILURE q)"
    "cancelling (trace q)"
    by blast
  from exit_code_reflects_failure [where ws = cancelled_then_read_fails
      and out = "Exit EXIT_FAILURE q", THEN conjunct2, THEN conjunct2, THEN conjunct1]
    exit_code_reflects_failure [where ws = cancelled_then_read_fails and c = EXIT_FAILURE
      and p = q, THEN conjunct2, THEN conjunct2, THEN conjunct2, THEN conjunct1] h
  show "\<exists>q. main cancelled_then_read_fails = Some (Exit EXIT_FAILURE q) \<and> cancelling (trace q) \<and>
        force_quit q \<and> printed q = None \<and> (\<exists>call. Call call False \<in> set (trace q))"
    by (auto simp: EXIT_SUCCESS_def EXIT_FAILURE_def)
next
  from exit_code_reflects_failure [where pre = "replicate 8 quiet" and w = failing and rest = "[]", THEN conjunct2, THEN conjunct2, THEN conjunct2, THEN conjunct2, THEN conjunct1]
  show "main stage3_fails
     = Some (Exit EXIT_FAILURE (initial\<lparr>trace := failures [] setup_steps ! 8\<rparr>))"
    by (simp add: stage3_fails_def failing_def list_all_iff)
next
  from exit_code_reflects_failure [where st = "install launched" and ?w1.0 = "tick 60 0"
      and a = "install launched" and ?ws1.0 = "[]", THEN conjunct2, THEN conjunct2, THEN conjunct2, THEN conjunct2, THEN conjunct2, THEN conjunct1]
  show "\<exists>q. telemetry_loop (install launched) [tick 60 0] = Some (Exit EXIT_SUCCESS q)"
    by (simp add: install_def launched_def initial_def SIMULATION_TIME_def)
next
  let ?a = "signal_handler SIGINT
              ((install launched)\<lparr>trace := trace (install launched) @ [Handler SIGINT]\<rparr>)"
  from exit_code_reflects_failure [where st = "install launched"
      and ?w1.0 = "(tick 0 0)\<lparr>sigs := [SIGINT]\<rparr>" and a = ?a and ?w2.0 = failing
      and b = "(logged time True ?a)\<lparr>head_time := 0\<rparr>" and ?ws2.0 = "[]", THEN conjunct2, THEN conjunct2, THEN conjunct2, THEN conjunct2, THEN conjunct2, THEN conjunct1]
  show "\<exists>q. telemetry_loop (install launched) [(tick 0 0)\<lparr>sigs := [SIGINT]\<rparr>, failing]
          = Some (Exit EXIT_FAILURE q) \<and> force_quit q"
    by (simp add: deliver_def install_def launched_def initial_def SIMULATION_TIME_def
        failing_def signal_handler_def logged_def)
next
  from exit_code_reflects_failure [where st = "(install launched)\<lparr>force_quit := True\<rparr>"
      and ?ws3.0 = "[]", THEN conjunct2, THEN conjunct2, THEN conjunct2, THEN conjunct2, THEN conjunct2, THEN conjunct2]
  show "\<exists>q. telemetry_loop ((install launched)\<lparr>force_quit := True\<rparr>) []
          = Some (Exit EXIT_SUCCESS q)"
    by simp
qed

text \<open>
  C3.  The claim: when cancellation is never requested, the loop stops polling once
  60 seconds have passed, whether or not the counter advances.  The code does not: when the
  first counter read returns 0, which is the initial \<^verbatim>\<open>last_rpc_val\<close>, the wait of lines
  186--190 neither reads the counter again nor looks at the clock.  Whatever the clock and
  the device counter do afterwards, \<^verbatim>\<open>main\<close> never gets to the report.
\<close>

theorem unchanged_first_read_never_returns:
  "main (startup @ tick 0 0 # tick 0 0 # tick t 0 # map (\<lambda>(t, c). tick t c) later) = None"
proof -
  have "\<forall>w\<in>set (map (\<lambda>(t, c). tick t c) later). sigs w = []"
    by auto
  then show ?thesis
    unfolding main_startup
    by (simp add: observe_quiet telemetry_loop_stalls install_def launched_def void_def
        logged_def initial_def SIMULATION_TIME_def)
qed

text \<open>
  C4.  The claim: for the counter sequence \<open>[0,0,5,5,5,9]\<close> the buckets sum to 9, and no
  bucket is negative when the counter never decreases.  The code reads the first 0 and
  waits; it is still waiting after any number of further seconds.  When SIGINT ends the
  wait, the report has total 0 and every bucket is 0.  And a bucket is an \<^verbatim>\<open>int\<close>: a
  first read of \<open>2^31\<close> is stored as \<open>- 2^31\<close>.
\<close>

theorem scripted_sequence_yields_no_deltas:
  "main (startup @ tick 0 0 # tick 0 0 # scripted @ replicate n (tick 6 9)) = None \<and>
   (\<exists>p. main (startup @ tick 0 0 # tick 0 0 # scripted
                @ [(tick 6 9)\<lparr>sigs := [SIGINT]\<rparr>, tick 6 9]) = Some (Exit EXIT_SUCCESS p)
        \<and> map_option total (printed p) = Some 0
        \<and> sum_list (map sint (packets_per_second p)) = 0) \<and>
   (\<exists>p. main big_burst = Some (Exit EXIT_SUCCESS p)
        \<and> sint (packets_per_second p ! 5) = - 2147483648)"
proof (intro conjI)
  have "\<forall>w\<in>set (tl scripted @ replicate n (tick 6 9)). sigs w = []"
    by (auto simp: scripted_def)
  then show "main (startup @ tick 0 0 # tick 0 0 # scripted @ replicate n (tick 6 9)) = None"
    unfolding main_startup
    by (simp add: observe_quiet scripted_def telemetry_loop_stalls install_def launched_def
        void_def logged_def initial_def SIMULATION_TIME_def)
next
  show "\<exists>p. main (startup @ tick 0 0 # tick 0 0 # scripted
                @ [(tick 6 9)\<lparr>sigs := [SIGINT]\<rparr>, tick 6 9]) = Some (Exit EXIT_SUCCESS p)
        \<and> map_option total (printed p) = Some 0
        \<and> sum_list (map sint (packets_per_second p)) = 0"
    unfolding main_startup
    by (simp add: observe_quiet scripted_def run_simps ext_def deliver_def signal_handler_def
        list_update_replicate_same sum_list_replicate)
next
  show "\<exists>p. main big_burst = Some (Exit EXIT_SUCCESS p)
        \<and> sint (packets_per_second p ! 5) = - 2147483648"
    unfolding big_burst_def main_startup
    by (simp add: observe_quiet run_simps wait_unchanged_progress)
qed

text \<open>
  C5.  The claim: on every observation of progress the bucket of the second of the minute
  is set to \<^verbatim>\<open>count - last_count\<close>, and \<^verbatim>\<open>last_count\<close> to \<^verbatim>\<open>count\<close>.

  Lines 194--201, for every state and every \<^verbatim>\<open>tm_sec\<close>: when \<^verbatim>\<open>tm_sec\<close> is from 0 to 59,
  \<^verbatim>\<open>current_second\<close> becomes \<^verbatim>\<open>tm_sec\<close>, the bucket of that index becomes the low 32 bits
  of \<^verbatim>\<open>ret_rpc_val - last_rpc_val\<close>, the other buckets stay, and \<^verbatim>\<open>last_rpc_val\<close> becomes
  \<^verbatim>\<open>ret_rpc_val\<close>; otherwise the write is outside the array.  The old content of the
  bucket plays no part, whether it is reset in line 198 or not: the update overwrites.
  A bucket is an \<^verbatim>\<open>int\<close> and the counters are \<^verbatim>\<open>uint64_t\<close>: the bucket read as an
  \<^verbatim>\<open>int\<close> is the difference exactly when the difference is below \<open>2^31\<close>.

  One pass of the loop of line 177 in which the counter read differs from
  \<^verbatim>\<open>last_rpc_val\<close>, whatever handled signals arrive: the wait of line 186 is skipped, the
  index is the \<^verbatim>\<open>tm_sec\<close> of the snapshot read by the \<^verbatim>\<open>time\<close> of line 193, the difference
  is that of the count read and the last count, and the loop goes on from the updated
  state; when \<^verbatim>\<open>force_quit\<close> has been set meanwhile, the run ends there with the report of
  that state.

  Where the code leaves the claim: when the first read returns \<open>2^31\<close>, the difference
  is \<open>2^31\<close> and the bucket holds \<open>- 2^31\<close>, in lines 194--201 on their own and in the
  run \<open>big_burst\<close>; and for \<^verbatim>\<open>tm_sec = 60\<close> no bucket of the array is written.
\<close>

theorem bucket_is_narrowed_difference:
  "record_progress sec p =
     (if 0 \<le> sec \<and> sec < SIMULATION_TIME
      then Some (p\<lparr>current_second := sec,
                   packets_per_second :=
                     (packets_per_second p)[nat sec := ucast (ret_rpc_val p - last_rpc_val p)],
                   last_rpc_val := ret_rpc_val p\<rparr>)
      else None) \<and>
   record_progress sec (p\<lparr>packets_per_second := (packets_per_second p)[nat sec := v]\<rparr>)
     = record_progress sec p \<and>
   (record_progress sec p = Some q \<longrightarrow> nat sec < length (packets_per_second p) \<longrightarrow>
      (sint (packets_per_second q ! nat sec) = uint (ret_rpc_val p - last_rpc_val p)
         \<longleftrightarrow> uint (ret_rpc_val p - last_rpc_val p) < 2 ^ 31)) \<and>
   (\<not> force_quit p \<longrightarrow> deliver_all (sigs w1) p = Inr a \<longrightarrow>
    clock w1 - start_time p < SIMULATION_TIME \<longrightarrow>
    deliver_all (sigs w2) ((logged time True a)\<lparr>head_time := clock w1\<rparr>) = Inr b \<longrightarrow>
    ok w2 \<longrightarrow> counter w2 \<noteq> last_rpc_val p \<longrightarrow>
    deliver_all (sigs w3)
      ((logged (flexio_process_call get_processed_packets_num) True b)
         \<lparr>ret_rpc_val := counter w2\<rparr>) = Inr c \<longrightarrow>
      (let c' = c\<lparr>trace := trace c @ [Call time True, Call localtime True]\<rparr>;
           p' = c'\<lparr>current_second := tm_sec w3,
                    packets_per_second :=
                      (packets_per_second p)[nat (tm_sec w3) :=
                         ucast (counter w2 - last_rpc_val p)],
                    last_rpc_val := counter w2\<rparr>
       in telemetry_loop p (w1 # w2 # w3 # ws) =
            (if 0 \<le> tm_sec w3 \<and> tm_sec w3 < SIMULATION_TIME
             then (if force_quit c then Some (finish p') else telemetry_loop p' ws)
             else Some (Fault c')))) \<and>
   uint (ret_rpc_val (initial\<lparr>ret_rpc_val := 2147483648\<rparr>)
         - last_rpc_val (initial\<lparr>ret_rpc_val := 2147483648\<rparr>)) = 2147483648 \<and>
   map_option (map sint \<circ> packets_per_second)
     (record_progress 5 (initial\<lparr>ret_rpc_val := 2147483648\<rparr>))
     = Some ((replicate 60 0)[5 := - 2147483648]) \<and>
   map_option (last_rpc_val \<circ> proc_of) (main big_burst) = Some 2147483648 \<and>
   map_option (map sint \<circ> packets_per_second \<circ> proc_of) (main big_burst)
     = Some ((replicate 60 0)[5 := - 2147483648]) \<and>
   record_progress 60 (initial\<lparr>ret_rpc_val := 7\<rparr>) = None"
proof (intro conjI impI)
  show "record_progress sec p =
     (if 0 \<le> sec \<and> sec < SIMULATION_TIME
      then Some (p\<lparr>current_second := sec,
                   packets_per_second :=
                     (packets_per_second p)[nat sec := ucast (ret_rpc_val p - last_rpc_val p)],
                   last_rpc_val := ret_rpc_val p\<rparr>)
      else None)"
    by (rule record_progress_closed)
  show "record_progress sec (p\<lparr>packets_per_second := (packets_per_second p)[nat sec := v]\<rparr>)
     = record_progress sec p"
    by (simp add: record_progress_closed)
next
  assume "record_progress sec p = Some q" "nat sec < length (packets_per_second p)"
  then have "packets_per_second q ! nat sec = ucast (ret_rpc_val p - last_rpc_val p)"
    by (auto simp: record_progress_closed split: if_splits)
  then show "sint (packets_per_second q ! nat sec) = uint (ret_rpc_val p - last_rpc_val p)
         \<longleftrightarrow> uint (ret_rpc_val p - last_rpc_val p) < 2 ^ 31"
    by (simp add: narrow_iff)
next
  assume a: "\<not> force_quit p" "deliver_all (sigs w1) p = Inr a"
    "clock w1 - start_time p < SIMULATION_TIME"
    "deliver_all (sigs w2) ((logged time True a)\<lparr>head_time := clock w1\<rparr>) = Inr b"
    "ok w2" "counter w2 \<noteq> last_rpc_val p"
    "deliver_all (sigs w3)
      ((logged (flexio_process_call get_processed_packets_num) True b)
         \<lparr>ret_rpc_val := counter w2\<rparr>) = Inr c"
  show "let c' = c\<lparr>trace := trace c @ [Call time True, Call localtime True]\<rparr>;
           p' = c'\<lparr>current_second := tm_sec w3,
                    packets_per_second :=
                      (packets_per_second p)[nat (tm_sec w3) :=
                         ucast (counter w2 - last_rpc_val p)],
                    last_rpc_val := counter w2\<rparr>
       in telemetry_loop p (w1 # w2 # w3 # ws) =
            (if 0 \<le> tm_sec w3 \<and> tm_sec w3 < SIMULATION_TIME
             then (if force_quit c then Some (finish p') else telemetry_loop p' ws)
             else Some (Fault c'))"
    unfolding Let_def progress_pass [OF a]
    by (simp add: telemetry_loop_cancelled)
next
  show "uint (ret_rpc_val (initial\<lparr>ret_rpc_val := 2147483648\<rparr>)
         - last_rpc_val (initial\<lparr>ret_rpc_val := 2147483648\<rparr>)) = 2147483648"
    by (simp add: initial_def)
  show "map_option (map sint \<circ> packets_per_second)
     (record_progress 5 (initial\<lparr>ret_rpc_val := 2147483648\<rparr>))
     = Some ((replicate 60 0)[5 := - 2147483648])"
    by (simp add: record_progress_closed SIMULATION_TIME_def initial_def map_update)
  show "map_option (last_rpc_val \<circ> proc_of) (main big_burst) = Some 2147483648"
    unfolding big_burst_def main_startup
    by (simp add: observe_quiet run_simps wait_unchanged_progress)
  show "map_option (map sint \<circ> packets_per_second \<circ> proc_of) (main big_burst)
     = Some ((replicate 60 0)[5 := - 2147483648])"
    unfolding big_burst_def main_startup
    by (simp add: observe_quiet run_simps wait_unchanged_progress map_update)
  show "record_progress 60 (initial\<lparr>ret_rpc_val := 7\<rparr>) = None"
    by (simp add: record_progress_closed SIMULATION_TIME_def)
qed

theorem bucket_is_narrowed_difference_witness:
  "(\<exists>q. record_progress 5 (initial\<lparr>ret_rpc_val := 7\<rparr>) = Some q \<and>
        current_second q = 5 \<and> last_rpc_val q = 7 \<and>
        sint (packets_per_second q ! 5) = 7) \<and>
   (\<exists>q. telemetry_loop (install launched) [tick 0 0, tick 0 7, (tick 5 7)\<lparr>sigs := [SIGINT]\<rparr>]
          = Some (Exit EXIT_SUCCESS q) \<and>
        force_quit q \<and> current_second q = 5 \<and> last_rpc_val q = 7 \<and>
        map sint (packets_per_second q) = (replicate 60 0)[5 := 7] \<and>
        printed q = Some \<lparr>total = 7, seconds = [(0, 0), (1, 0), (2, 0), (3, 0), (4, 0)]\<rparr>)"
proof
  let ?p = "initial\<lparr>ret_rpc_val := 7\<rparr>"
  let ?q = "?p\<lparr>current_second := 5,
                packets_per_second := (packets_per_second ?p)[nat 5 := ucast (ret_rpc_val ?p - last_rpc_val ?p)],
                last_rpc_val := ret_rpc_val ?p\<rparr>"
  note t = bucket_is_narrowed_difference [where sec = 5 and p = ?p and q = ?q]
  from t [THEN conjunct1]
  have r: "record_progress 5 ?p = Some ?q" by (simp add: SIMULATION_TIME_def)
  with t [THEN conjunct2, THEN conjunct2, THEN conjunct1]
  have "sint (packets_per_second ?q ! nat 5) = uint (ret_rpc_val ?p - last_rpc_val ?p)"
    by (simp add: initial_def)
  then have "sint (packets_per_second ?q ! 5) = 7" by (simp add: initial_def)
  with r show "\<exists>q. record_progress 5 ?p = Some q \<and>
        current_second q = 5 \<and> last_rpc_val q = 7 \<and>
        sint (packets_per_second q ! 5) = 7"
    by simp
next
  let ?rpc = "flexio_process_call get_processed_packets_num"
  let ?b = "(logged time True (install launched))\<lparr>head_time := 0\<rparr>"
  let ?c0 = "(logged ?rpc True ?b)\<lparr>ret_rpc_val := 7\<rparr>"
  let ?c = "signal_handler SIGINT (?c0\<lparr>trace := trace ?c0 @ [Handler SIGINT]\<rparr>)"
  note t = bucket_is_narrowed_difference [where p = "install launched" and ?w1.0 = "tick 0 0"
      and a = "install launched" and ?w2.0 = "tick 0 7" and b = ?b
      and ?w3.0 = "(tick 5 7)\<lparr>sigs := [SIGINT]\<rparr>" and c = ?c and ws = "[]",
      THEN conjunct2, THEN conjunct2, THEN conjunct2, THEN conjunct1]
  have "\<not> force_quit (install launched)"
    "deliver_all (sigs (tick 0 0)) (install launched) = Inr (install launched)"
    "clock (tick 0 0) - start_time (install launched) < SIMULATION_TIME"
    "deliver_all (sigs (tick 0 7)) ((logged time True (install launched))\<lparr>head_time := clock (tick 0 0)\<rparr>) = Inr ?b"
    "ok (tick 0 7)" "counter (tick 0 7) \<noteq> last_rpc_val (install launched)"
    "deliver_all (sigs ((tick 5 7)\<lparr>sigs := [SIGINT]\<rparr>))
       ((logged ?rpc True ?b)\<lparr>ret_rpc_val := counter (tick 0 7)\<rparr>) = Inr ?c"
    by (simp_all add: install_def launched_def initial_def SIMULATION_TIME_def deliver_def
        logged_def)
  with t show "\<exists>q. telemetry_loop (install launched) [tick 0 0, tick 0 7, (tick 5 7)\<lparr>sigs := [SIGINT]\<rparr>]
          = Some (Exit EXIT_SUCCESS q) \<and>
        force_quit q \<and> current_second q = 5 \<and> last_rpc_val q = 7 \<and>
        map sint (packets_per_second q) = (replicate 60 0)[5 := 7] \<and>
        printed q = Some \<lparr>total = 7, seconds = [(0, 0), (1, 0), (2, 0), (3, 0), (4, 0)]\<rparr>"
    by (simp add: Let_def SIMULATION_TIME_def signal_handler_def finish_def final_report_def
        void_def logged_def install_def launched_def initial_def map_update upt_rec)
qed

text \<open>
  C6.  The claim: the report lists every bucket up to and including the highest second
  touched.  The loop of line 210 runs over \<^verbatim>\<open>i < current_second\<close>: the rows are the
  indices below \<^verbatim>\<open>current_second\<close>, so the bucket written last is never printed.  In the
  run \<open>one_burst\<close> the 7 packets of second 5 are in the array and not in the report.
\<close>

theorem report_stops_before_current_second:
  "map fst (seconds (final_report p)) = [0 ..< nat (current_second p)] \<and>
   (\<exists>q. main one_burst = Some (Exit EXIT_SUCCESS q)
        \<and> current_second q = 5 \<and> sint (packets_per_second q ! 5) = 7
        \<and> printed q = Some \<lparr>total = 7, seconds = [(0, 0), (1, 0), (2, 0), (3, 0), (4, 0)]\<rparr>)"
proof
  show "map fst (seconds (final_report p)) = [0 ..< nat (current_second p)]"
    by (simp add: final_report_def comp_def)
next
  show "\<exists>q. main one_burst = Some (Exit EXIT_SUCCESS q)
        \<and> current_second q = 5 \<and> sint (packets_per_second q ! 5) = 7
        \<and> printed q = Some \<lparr>total = 7, seconds = [(0, 0), (1, 0), (2, 0), (3, 0), (4, 0)]\<rparr>"
    unfolding one_burst_def main_startup
    by (simp add: observe_quiet run_simps wait_unchanged_progress upt_rec)
qed

text \<open>
  C9.  The claim: the index of every bucket write is within 0..59.  The index is
  \<^verbatim>\<open>tm_sec\<close>, unchecked; for \<^verbatim>\<open>tm_sec = 60\<close> the write of line 198 is outside the 60
  slots, and the run \<open>leap_second\<close> ends in that fault.
\<close>

theorem leap_second_writes_past_the_end:
  "record_progress 60 p = None \<and> length (packets_per_second initial) = 60 \<and>
   (\<exists>q. main leap_second = Some (Fault q))"
proof -
  have "record_progress 60 p = None"
    by (simp add: record_progress_def store_def SIMULATION_TIME_def)
  moreover have "\<exists>q. main leap_second = Some (Fault q)"
    unfolding leap_second_def main_startup
    by (simp add: observe_quiet run_simps wait_unchanged_progress)
  ultimately show ?thesis by (simp add: initial_def)
qed

lemma cancel_during_wait:
  assumes "\<not> force_quit p" "s = SIGINT \<or> s = SIGTERM" "s \<in> set (handlers p)"
    and "sigs w1 = []" "clock w1 - start_time p < SIMULATION_TIME"
    and "sigs w2 = []" "ok w2" "counter w2 = last_rpc_val p"
    and "\<forall>w\<in>set qs. sigs w = []"
    and "sigs w = [s]"
    and "sigs w' = []" "0 \<le> tm_sec w'" "tm_sec w' < 60"
  shows "\<exists>q. telemetry_loop p (w1 # w2 # qs @ w # w' # ws) = Some (Exit EXIT_SUCCESS q) \<and>
             force_quit q \<and>
             trace q = trace p
               @ [Call time True, Call (flexio_process_call get_processed_packets_num) True]
               @ replicate (length qs) (Call sleep True)
               @ [Handler s, Call sleep True, Call time True, Call localtime True,
                  Call l2_reflector_destroy True]"
proof -
  let ?rpc = "flexio_process_call get_processed_packets_num"
  define p2 where "p2 = (logged ?rpc True (logged time True p\<lparr>head_time := clock w1\<rparr>))
                            \<lparr>ret_rpc_val := counter w2\<rparr>"
  have w: "wait_unchanged p2 (qs @ w # w' # ws) =
           Some (Inr (p2\<lparr>trace := trace p2 @ replicate (length qs) (Call sleep True)
                                  @ [Handler s, Call sleep True],
                          force_quit := True\<rparr>, w' # ws))"
    using assms by (intro wait_unchanged_until_signal) (simp_all add: p2_def logged_def)
  show ?thesis
    using assms w
    by (subst telemetry_loop.simps)
       (simp add: ext_quiet p2_def [symmetric] record_progress_def store_def
          telemetry_loop_cancelled finish_def void_def logged_def p2_def SIMULATION_TIME_def)
qed

text \<open>
  C7.  In every run of \<^verbatim>\<open>main\<close>, at most one sleep follows a run of the handler for
  SIGINT or SIGTERM: the conditions of lines 177 and 186 read \<^verbatim>\<open>force_quit\<close> before every
  pass and after every sleep.  In particular, when the pass of the loop has read an unchanged
  counter and has slept any number of times, and the signal is delivered before a sleep
  returns, the wait ends with that sleep: the trace continues with the handler, that one
  sleep, \<^verbatim>\<open>time\<close> and \<^verbatim>\<open>localtime\<close> of lines 193--194 and \<^verbatim>\<open>l2_reflector_destroy\<close>, with
  no further counter read, and the process returns \<^verbatim>\<open>EXIT_SUCCESS\<close>.
\<close>

theorem cancellation_is_prompt:
  "(main ws = Some out \<longrightarrow> trace (proc_of out) = pre @ Handler s # post \<longrightarrow>
      s = SIGINT \<or> s = SIGTERM \<longrightarrow> sleeps post \<le> 1) \<and>
   (\<not> force_quit p \<longrightarrow> s = SIGINT \<or> s = SIGTERM \<longrightarrow> s \<in> set (handlers p) \<longrightarrow>
    sigs w1 = [] \<longrightarrow> clock w1 - start_time p < SIMULATION_TIME \<longrightarrow>
    sigs w2 = [] \<longrightarrow> ok w2 \<longrightarrow> counter w2 = last_rpc_val p \<longrightarrow>
    (\<forall>w\<in>set qs. sigs w = []) \<longrightarrow>
    sigs w = [s] \<longrightarrow>
    sigs w' = [] \<longrightarrow> 0 \<le> tm_sec w' \<longrightarrow> tm_sec w' < 60 \<longrightarrow>
    (\<exists>q. telemetry_loop p (w1 # w2 # qs @ w # w' # rest) = Some (Exit EXIT_SUCCESS q) \<and>
         force_quit q \<and>
         trace q = trace p
           @ [Call time True, Call (flexio_process_call get_processed_packets_num) True]
           @ replicate (length qs) (Call sleep True)
           @ [Handler s, Call sleep True, Call time True, Call localtime True,
              Call l2_reflector_destroy True]))"
proof (intro conjI impI)
  assume m: "main ws = Some out" and t: "trace (proc_of out) = pre @ Handler s # post"
    and s: "s = SIGINT \<or> s = SIGTERM"
  from main_cases [OF m]
  consider (telemetry) "ends (install launched) out"
    | (early) "trace (proc_of out) \<in> set (failures [] setup_steps) \<union> set (kills [] setup_steps)"
    using observe_ends by (cases out) auto
  then have "prompt (trace (proc_of out))"
  proof cases
    case telemetry
    then show ?thesis by (rule ends_prompt)
  next
    case early
    with early_no_handler show ?thesis by (intro prompt_calls) blast
  qed
  then show "sleeps post \<le> 1" using t s by (rule prompt_split)
next
  assume "\<not> force_quit p" "s = SIGINT \<or> s = SIGTERM" "s \<in> set (handlers p)"
    "sigs w1 = []" "clock w1 - start_time p < SIMULATION_TIME"
    "sigs w2 = []" "ok w2" "counter w2 = last_rpc_val p"
    "\<forall>w\<in>set qs. sigs w = []" "sigs w = [s]"
    "sigs w' = []" "0 \<le> tm_sec w'" "tm_sec w' < 60"
  then show "\<exists>q. telemetry_loop p (w1 # w2 # qs @ w # w' # rest) = Some (Exit EXIT_SUCCESS q) \<and>
         force_quit q \<and>
         trace q = trace p
           @ [Call time True, Call (flexio_process_call get_processed_packets_num) True]
           @ replicate (length qs) (Call sleep True)
           @ [Handler s, Call sleep True, Call time True, Call localtime True,
              Call l2_reflector_destroy True]"
    by (rule cancel_during_wait)
qed

theorem cancellation_is_prompt_witness:
  "(\<exists>q. main cancelled_once = Some (Exit EXIT_SUCCESS q) \<and>
        trace q = (trace (install launched)
                    @ [Call time True, Call localtime True, Call time True,
                       Call (flexio_process_call get_processed_packets_num) True])
                  @ Handler SIGINT
                  # [Call sleep True, Call time True, Call localtime True,
                     Call l2_reflector_destroy True]) \<and>
   sleeps [Call sleep True, Call time True, Call localtime True,
           Call l2_reflector_destroy True] \<le> 1 \<and>
   (\<exists>q. telemetry_loop (install launched)
          [tick 0 0, tick 0 0, tick 2 0, tick 4 0, (tick 6 0)\<lparr>sigs := [SIGINT]\<rparr>, tick 6 0]
          = Some (Exit EXIT_SUCCESS q) \<and>
        force_quit q \<and>
        trace q = trace (install launched)
          @ [Call time True, Call (flexio_process_call get_processed_packets_num) True,
             Call sleep True, Call sleep True, Handler SIGINT, Call sleep True,
             Call time True, Call localtime True, Call l2_reflector_destroy True])"
proof -
  let ?pre = "trace (install launched)
               @ [Call time True, Call localtime True, Call time True,
                  Call (flexio_process_call get_processed_packets_num) True]"
  let ?post = "[Call sleep True, Call time True, Call localtime True,
                Call l2_reflector_destroy True]"
  have "\<exists>q. main cancelled_once = Some (Exit EXIT_SUCCESS q) \<and>
          trace q = ?pre @ Handler SIGINT # ?post"
    unfolding cancelled_once_def main_startup
    by (simp add: observe_quiet run_simps ext_def deliver_def signal_handler_def)
  then obtain q where h: "main cancelled_once = Some (Exit EXIT_SUCCESS q)"
    "trace q = ?pre @ Handler SIGINT # ?post"
    by blast
  note t = cancellation_is_prompt [of cancelled_once "Exit EXIT_SUCCESS q" ?pre SIGINT ?post
      "install launched" "tick 0 0" "tick 0 0" "[tick 2 0, tick 4 0]"
      "(tick 6 0)\<lparr>sigs := [SIGINT]\<rparr>" "tick 6 0" "[]"]
  from t h have "sleeps ?post \<le> 1" by simp
  moreover from t have "\<exists>q. telemetry_loop (install launched)
          [tick 0 0, tick 0 0, tick 2 0, tick 4 0, (tick 6 0)\<lparr>sigs := [SIGINT]\<rparr>, tick 6 0]
          = Some (Exit EXIT_SUCCESS q) \<and>
        force_quit q \<and>
        trace q = trace (install launched)
          @ [Call time True, Call (flexio_process_call get_processed_packets_num) True,
             Call sleep True, Call sleep True, Handler SIGINT, Call sleep True,
             Call time True, Call localtime True, Call l2_reflector_destroy True]"
    by (simp add: install_def launched_def initial_def SIMULATION_TIME_def)
  ultimately show ?thesis using h by blast
qed

text \<open>
  C8.  \<^verbatim>\<open>signal_handler\<close> is idempotent and never clears \<^verbatim>\<open>force_quit\<close>; a signal delivered
  a second time leaves the state as the first delivery left it (the trace apart, which
  records the handler run); and in every run of \<^verbatim>\<open>main\<close>, once the handler has run for
  SIGINT or SIGTERM the flag is still set when the run ends.
\<close>

theorem cancellation_flag_is_monotone:
  "signal_handler s (signal_handler s p) = signal_handler s p \<and>
   (force_quit p \<longrightarrow> force_quit (signal_handler s p)) \<and>
   (deliver s p = Inr p1 \<longrightarrow> deliver s p1 = Inr (p1\<lparr>trace := trace p1 @ [Handler s]\<rparr>)) \<and>
   (main ws = Some out \<longrightarrow> cancelling (trace (proc_of out)) \<longrightarrow> force_quit (proc_of out))"
proof (intro conjI impI)
  show "signal_handler s (signal_handler s p) = signal_handler s p"
    by (simp add: signal_handler_def)
  show "force_quit (signal_handler s p)" if "force_quit p"
    using that by (simp add: signal_handler_def)
  show "deliver s p1 = Inr (p1\<lparr>trace := trace p1 @ [Handler s]\<rparr>)" if "deliver s p = Inr p1"
    using that by (auto simp: deliver_def signal_handler_def split: if_splits)
  show "force_quit (proc_of out)"
    if m: "main ws = Some out" and c: "cancelling (trace (proc_of out))"
  proof -
    from main_cases [OF m] show ?thesis
    proof
      assume "\<exists>ws'. observe launched ws' = Some out"
      then have "ends (install launched) out" using observe_ends by blast
      then show ?thesis using c by (rule ends_cancelled)
    next
      assume "proc_of out = initial\<lparr>trace := trace (proc_of out)\<rparr> \<and>
         (case out of
            Exit c p \<Rightarrow> c = EXIT_FAILURE \<and> trace p \<in> set (failures [] setup_steps)
          | Killed s p \<Rightarrow> trace p \<in> set (kills [] setup_steps)
          | Fault p \<Rightarrow> False)"
      then have "trace (proc_of out) \<in> set (failures [] setup_steps) \<union> set (kills [] setup_steps)"
        by (cases out) auto
      with early_no_handler c show ?thesis by (auto simp: cancelling_def)
    qed
  qed
qed

theorem cancellation_flag_is_monotone_witness:
  "(\<exists>p q. main cancelled_once = Some (Exit EXIT_SUCCESS p) \<and>
          main cancelled_twice = Some (Exit EXIT_SUCCESS q) \<and>
          cancelling (trace q) \<and> force_quit p \<and> force_quit q \<and> q\<lparr>trace := trace p\<rparr> = p \<and>
          force_quit (signal_handler SIGTERM p)) \<and>
   (\<exists>p1. deliver SIGINT (install launched) = Inr p1 \<and> force_quit p1 \<and>
          deliver SIGINT p1 = Inr (p1\<lparr>trace := trace p1 @ [Handler SIGINT]\<rparr>))"
proof -
  have d: "deliver SIGINT (install launched)
        = Inr (signal_handler SIGINT
                 ((install launched)\<lparr>trace := trace (install launched) @ [Handler SIGINT]\<rparr>))"
    by (simp add: deliver_def install_def)
  from cancellation_flag_is_monotone [where s = SIGINT and p = "install launched"
      and ?p1.0 = "signal_handler SIGINT
                 ((install launched)\<lparr>trace := trace (install launched) @ [Handler SIGINT]\<rparr>)"] d
  have twice: "\<exists>p1. deliver SIGINT (install launched) = Inr p1 \<and> force_quit p1 \<and>
          deliver SIGINT p1 = Inr (p1\<lparr>trace := trace p1 @ [Handler SIGINT]\<rparr>)"
    by (simp add: signal_handler_def)
  have "\<exists>p q. main cancelled_once = Some (Exit EXIT_SUCCESS p) \<and>
         main cancelled_twice = Some (Exit EXIT_SUCCESS q) \<and>
         cancelling (trace q) \<and> force_quit p \<and> q\<lparr>trace := trace p\<rparr> = p"
    unfolding cancelled_once_def cancelled_twice_def main_startup
    by (simp add: observe_quiet run_simps ext_def deliver_def signal_handler_def cancelling_def)
  then obtain p q where h: "main cancelled_once = Some (Exit EXIT_SUCCESS p)"
    "main cancelled_twice = Some (Exit EXIT_SUCCESS q)" "cancelling (trace q)" "force_quit p"
    "q\<lparr>trace := trace p\<rparr> = p"
    by blast
  from cancellation_flag_is_monotone [where s = SIGTERM and p = p and ws = cancelled_twice
      and out = "Exit EXIT_SUCCESS q"] h(2,3,4)
  have "force_quit q" "force_quit (signal_handler SIGTERM p)" by simp_all
  with h twice show ?thesis by blast
qed

text \<open>
  C10.  In every run of \<^verbatim>\<open>main\<close>: if a handler has been installed or has run, or
  \<^verbatim>\<open>force_quit\<close> is set, then the trace begins with the thirteen setup calls, all
  successful, followed by the two calls of \<^verbatim>\<open>signal\<close>; while no handler is installed
  \<^verbatim>\<open>force_quit\<close> is false; and a process killed while no handler is installed has
  released nothing.  A signal that arrives during one of the thirteen setup calls, the
  earlier ones having succeeded, kills the process at that call.
\<close>

theorem handlers_installed_after_launch:
  "(main ws = Some out \<longrightarrow>
      (Call (signal n) b \<in> set (trace (proc_of out)) \<or> Handler n \<in> set (trace (proc_of out))
         \<or> force_quit (proc_of out) \<or> handlers (proc_of out) \<noteq> []
       \<longrightarrow> take 15 (trace (proc_of out)) = trace (install launched)) \<and>
      (handlers (proc_of out) = [] \<longrightarrow> \<not> force_quit (proc_of out)) \<and>
      (out = Killed k q \<longrightarrow> handlers q = [] \<longrightarrow> released d (trace q) = [])) \<and>
   (length pre < 13 \<longrightarrow> list_all (\<lambda>w. sigs w = [] \<and> ok w) pre \<longrightarrow> sigs w = k' # ss \<longrightarrow>
      main (pre @ w # rest)
        = Some (Killed k' (initial\<lparr>trace := take (length pre) (trace launched)\<rparr>)))"
proof (intro conjI impI)
  assume m: "main ws = Some out"
  from main_cases [OF m]
  consider (telemetry) "ends (install launched) out"
    | (early) "proc_of out = initial\<lparr>trace := trace (proc_of out)\<rparr>"
        "trace (proc_of out) \<in> set (failures [] setup_steps) \<union> set (kills [] setup_steps)"
    using observe_ends by (cases out) auto
  note cases = this
  show "take 15 (trace (proc_of out)) = trace (install launched)"
    if "Call (signal n) b \<in> set (trace (proc_of out)) \<or> Handler n \<in> set (trace (proc_of out))
         \<or> force_quit (proc_of out) \<or> handlers (proc_of out) \<noteq> []"
  proof (cases rule: cases)
    case telemetry
    then show ?thesis by (rule ends_prefix)
  next
    case early
    with that early_no_handler early_state [OF early(1)] show ?thesis by blast
  qed
  show "\<not> force_quit (proc_of out)" if "handlers (proc_of out) = []"
  proof (cases rule: cases)
    case telemetry
    with that ends_prefix(2) show ?thesis by fastforce
  next
    case early
    then show ?thesis using early_state by blast
  qed
  show "released d (trace q) = []" if "out = Killed k q" "handlers q = []"
  proof (cases rule: cases)
    case telemetry
    with that ends_prefix(2) show ?thesis by fastforce
  next
    case early
    with that main_cases [OF m] observe_ends ends_prefix(2) kills_released show ?thesis
      by fastforce
  qed
next
  assume "length pre < 13" "list_all (\<lambda>w. sigs w = [] \<and> ok w) pre" "sigs w = k' # ss"
  then show "main (pre @ w # rest)
        = Some (Killed k' (initial\<lparr>trace := take (length pre) (trace launched)\<rparr>))"
    by (rule early_signal_kills)
qed

theorem handlers_installed_after_launch_witness:
  "main early_sigint = Some (Killed SIGINT (initial\<lparr>trace := take 7 (trace launched)\<rparr>)) \<and>
   released [] (take 7 (trace launched)) = [] \<and>
   \<not> force_quit (initial\<lparr>trace := take 7 (trace launched)\<rparr>) \<and>
   (\<exists>q. main cancelled_once = Some (Exit EXIT_SUCCESS q) \<and> force_quit q \<and>
        Handler SIGINT \<in> set (trace q) \<and> take 15 (trace q) = trace (install launched))"
proof -
  have "\<exists>q. main cancelled_once = Some (Exit EXIT_SUCCESS q) \<and> force_quit q \<and>
          Handler SIGINT \<in> set (trace q)"
    unfolding cancelled_once_def main_startup
    by (simp add: observe_quiet run_simps ext_def deliver_def signal_handler_def)
  then obtain q where c: "main cancelled_once = Some (Exit EXIT_SUCCESS q)" "force_quit q"
    "Handler SIGINT \<in> set (trace q)"
    by blast
  from handlers_installed_after_launch [where ws = cancelled_once
      and out = "Exit EXIT_SUCCESS q" and n = SIGINT] c
  have "take 15 (trace q) = trace (install launched)" by simp
  with c have late: "\<exists>q. main cancelled_once = Some (Exit EXIT_SUCCESS q) \<and> force_quit q \<and>
        Handler SIGINT \<in> set (trace q) \<and> take 15 (trace q) = trace (install launched)"
    by blast
  have l: "length (replicate 7 quiet) < 13"
    "list_all (\<lambda>w. sigs w = [] \<and> ok w) (replicate 7 quiet)"
    "sigs (quiet\<lparr>sigs := [SIGINT]\<rparr>) = SIGINT # []"
    by (simp_all add: list_all_iff)
  note t = handlers_installed_after_launch [where ws = early_sigint
      and out = "Killed SIGINT (initial\<lparr>trace := take 7 (trace launched)\<rparr>)"
      and n = SIGINT and b = True and k = SIGINT
      and q = "initial\<lparr>trace := take 7 (trace launched)\<rparr>" and d = "[]"
      and pre = "replicate 7 quiet" and w = "quiet\<lparr>sigs := [SIGINT]\<rparr>"
      and k' = SIGINT and ss = "[]" and rest = "[]"]
  from t l have m: "main early_sigint
      = Some (Killed SIGINT (initial\<lparr>trace := take 7 (trace launched)\<rparr>))"
    by (simp add: early_sigint_def)
  with t late show ?thesis by simp
qed

end
